theory Spec2Isabelle
  imports Main
begin

section \<open>Data model\<close>

text \<open>
  The job table of the shell (the second source file): \<^verbatim>\<open>proc_t\<close> and \<^verbatim>\<open>job_t\<close> are the two
  structs of the source. The field \<^verbatim>\<open>state\<close> of a process is called \<open>pstate\<close> and its
  \<^verbatim>\<open>exitcode\<close> is called \<open>pexitcode\<close>, since the job has a field \<^verbatim>\<open>state\<close> and the source a
  function \<^verbatim>\<open>exitcode\<close> of their own. The pair \<^verbatim>\<open>proc\<close>, \<^verbatim>\<open>nproc\<close> (a heap array and its
  length, always reallocated and reset together) is the list \<open>proc\<close>; \<open>nproc\<close> is its
  length. A \<^verbatim>\<open>char*\<close> that may be \<^verbatim>\<open>NULL\<close> is a \<open>string option\<close>.
\<close>

text \<open>
  Modelled from the spec: the states \<^verbatim>\<open>FINISHED\<close>, \<^verbatim>\<open>RUNNING\<close> and \<^verbatim>\<open>STOPPED\<close> are an
  enumeration of \<^verbatim>\<open>shell.h\<close>, which is not among the sources; the spec gives the
  lifecycle state of a process and of a job as one of the three.
\<close>

datatype jstate = FINISHED | RUNNING | STOPPED

record proc_t =
  pid :: int
  pstate :: jstate
  pexitcode :: int

record job_t =
  pgid :: int
  proc :: "proc_t list"
  state :: jstate
  command :: "string option"

definition nproc :: "job_t \<Rightarrow> nat" where
  "nproc job = length (proc job)"

text \<open>
  Modelled from the spec: the token vocabulary \<^verbatim>\<open>token_t\<close>, its separators and the test
  \<^verbatim>\<open>string_p\<close> are declared in \<^verbatim>\<open>shell.h\<close>, which is not among the sources. The spec gives a
  token as a literal string or one of the separators \<^verbatim>\<open><\<close>, \<^verbatim>\<open>>\<close>, \<^verbatim>\<open>|\<close>, \<^verbatim>\<open>&\<close> and
  end-of-args.
\<close>

datatype token = T_NULL | T_INPUT | T_OUTPUT | T_PIPE | T_BGJOB | T_STR string

fun string_p :: "token \<Rightarrow> bool" where
  "string_p (T_STR s) = True"
| "string_p t = False"

text \<open>
  The selector of \<^verbatim>\<open>watchjobs\<close>: \<^verbatim>\<open>ALL\<close> (here \<open>ALL_JOBS\<close>, \<open>ALL\<close> being a word of the
  logic's syntax) or one of the three states.
\<close>

datatype which = ALL_JOBS | Only jstate

datatype signal = SIGCONT | SIGTERM | SIGTSTP | SIGTTIN | SIGTTOU

text \<open>
  The system calls the shell makes are logged in order. \<open>Fork pid prog\<close> is a successful
  \<^verbatim>\<open>fork\<close> that returned \<open>pid\<close> to the shell; \<open>prog\<close> is what the child ran from the
  \<^verbatim>\<open>fork\<close> on. \<open>External_command\<close> (the \<^verbatim>\<open>execve\<close> search, which does not return),
  \<open>Exit\<close> and \<open>Halted\<close> end a child's log.
\<close>

datatype stop = AssertFail | Fault | Blocked | Exited int

datatype call =
    Sigprocmask_block
  | Sigprocmask_setmask
  | Signal_dfl signal
  | Open string bool int
  | Close int
  | Dup2 int int
  | Pipe int int
  | Setpgid int int
  | Kill int signal
  | Tcsetpgrp int int
  | Chdir "string option"
  | Fork int "call list"
  | External_command "token list"
  | Exit int
  | Halted stop

text \<open>
  The state of the shell process and of what it sees of the system.
  \<^item> \<open>jobs\<close> is the global array \<^verbatim>\<open>jobs\<close>; \<^verbatim>\<open>njobmax\<close> is its length.
  \<^item> \<open>state0\<close> is the state whose enumeration value is 0, the one a slot cleared by
    \<^verbatim>\<open>memset\<close> or \<^verbatim>\<open>calloc\<close> holds; the enumeration is declared in \<^verbatim>\<open>shell.h\<close>, so it is
    a parameter here. No function changes it.
  \<^item> \<open>out\<close> is everything \<^verbatim>\<open>msg\<close> has written; \<open>calls\<close> is the log of system calls.
  \<^item> \<open>next_pid\<close> and \<open>next_fd\<close> are what the next \<^verbatim>\<open>fork\<close> and the next \<^verbatim>\<open>open\<close> or
    \<^verbatim>\<open>pipe\<close> return; \<open>openable\<close> tells which files \<^verbatim>\<open>open\<close> can open (the flag says
    whether for reading); \<open>chdir_error\<close> gives the \<^verbatim>\<open>strerror\<close> text when \<^verbatim>\<open>chdir\<close> fails.
  \<^item> \<open>pending\<close> holds the status changes of children (pid, wait status) that
    \<^verbatim>\<open>waitpid\<close> has not yet collected; \<open>future\<close> holds the batches of status changes
    still to come, one batch for each \<^verbatim>\<open>SIGCHLD\<close> that wakes a \<^verbatim>\<open>Sigsuspend\<close>.
\<close>

record shell =
  jobs :: "job_t list"
  state0 :: jstate
  tty_fd :: int
  shell_pgrp :: int
  home :: "string option"
  out :: string
  calls :: "call list"
  next_pid :: int
  next_fd :: int
  openable :: "string \<Rightarrow> bool \<Rightarrow> bool"
  chdir_error :: "string option \<Rightarrow> string option"
  pending :: "(int \<times> int) list"
  future :: "(int \<times> int) list list"

definition njobmax :: "shell \<Rightarrow> nat" where
  "njobmax s = length (jobs s)"

text \<open>
  A function of the source that can fail to return is a function into \<open>outcome\<close>:
  it returns a value and the new state, or it halts in a state: a failed \<^verbatim>\<open>assert\<close>
  (the process aborts), a fault (a read through \<^verbatim>\<open>NULL\<close> or outside an array), a
  \<^verbatim>\<open>Sigsuspend\<close> that no signal ends, or a call of \<^verbatim>\<open>exit\<close>.
\<close>

datatype 'a outcome = Return 'a shell | Halt stop shell

definition bindO :: "'a outcome \<Rightarrow> ('a \<Rightarrow> shell \<Rightarrow> 'b outcome) \<Rightarrow> 'b outcome" where
  "bindO m f = (case m of Return a s \<Rightarrow> f a s | Halt r s \<Rightarrow> Halt r s)"

fun final :: "'a outcome \<Rightarrow> shell" where
  "final (Return a s) = s"
| "final (Halt r s) = s"

fun result :: "'a outcome \<Rightarrow> 'a option" where
  "result (Return a s) = Some a"
| "result (Halt r s) = None"

fun halted :: "'a outcome \<Rightarrow> stop option" where
  "halted (Return a s) = None"
| "halted (Halt r s) = Some r"

text \<open>
  Modelled from the spec: \<^verbatim>\<open>FG\<close> and \<^verbatim>\<open>BG\<close> are constants of \<^verbatim>\<open>shell.h\<close>. Slot 0 is the
  foreground slot and the background slots start at 1; the source uses \<^verbatim>\<open>FG\<close> as false
  and \<^verbatim>\<open>BG\<close> as true where it passes them for \<^verbatim>\<open>bg\<close>.
\<close>

definition FG :: nat where "FG = 0"
definition BG :: nat where "BG = 1"

text \<open>
  \<open>call\<close> logs a system call. The wrappers \<^verbatim>\<open>Fork\<close>, \<^verbatim>\<open>Kill\<close>, \<^verbatim>\<open>Pipe\<close>, \<^verbatim>\<open>Sigprocmask\<close>,
  \<^verbatim>\<open>Signal\<close> and \<^verbatim>\<open>Tcsetpgrp\<close> end the shell when the call fails; the model takes the calls
  to succeed. \<^verbatim>\<open>msg\<close>, a macro of \<^verbatim>\<open>shell.h\<close>, prints its text for the user.
\<close>

definition call :: "call \<Rightarrow> shell \<Rightarrow> shell" where
  "call c s = s\<lparr>calls := calls s @ [c]\<rparr>"

definition msg :: "string \<Rightarrow> shell \<Rightarrow> shell" where
  "msg txt s = s\<lparr>out := out s @ txt\<rparr>"

lemma jobs_call [simp]: "jobs (call c s) = jobs s"
  by (simp add: call_def)

lemma njobmax_call [simp]: "njobmax (call c s) = njobmax s"
  by (simp add: njobmax_def)

lemma calls_call [simp]: "calls (call c s) = calls s @ [c]"
  by (simp add: call_def)

lemma out_call [simp]: "out (call c s) = out s"
  by (simp add: call_def)

lemma openable_call [simp]: "openable (call c s) = openable s"
  by (simp add: call_def)

lemma next_pid_call [simp]: "next_pid (call c s) = next_pid s"
  by (simp add: call_def)

section \<open>The library functions the source calls\<close>

text \<open>
  The macros of \<^verbatim>\<open><sys/wait.h>\<close> on a wait status, as glibc defines them on Linux
  (a status is between 0 and \<^verbatim>\<open>0xffff\<close>).
\<close>

definition WIFEXITED :: "int \<Rightarrow> bool" where
  "WIFEXITED status = (status mod 128 = 0)"

definition WEXITSTATUS :: "int \<Rightarrow> int" where
  "WEXITSTATUS status = (status div 256) mod 256"

definition WIFSIGNALED :: "int \<Rightarrow> bool" where
  "WIFSIGNALED status = (0 < status mod 128 \<and> status mod 128 < 127)"

definition WIFSTOPPED :: "int \<Rightarrow> bool" where
  "WIFSTOPPED status = (status mod 256 = 127)"

definition WIFCONTINUED :: "int \<Rightarrow> bool" where
  "WIFCONTINUED status = (status = 65535)"

text \<open>
  \<^verbatim>\<open>waitpid(pid, &status, WNOHANG | WUNTRACED | WCONTINUED)\<close>: the first uncollected
  status change of \<open>pid\<close> is collected, and the result is \<open>Some status\<close>; \<open>None\<close> stands for
  a result that is not positive (nothing to collect).
\<close>

fun waitpid :: "int \<Rightarrow> (int \<times> int) list \<Rightarrow> int option \<times> (int \<times> int) list" where
  "waitpid p [] = (None, [])"
| "waitpid p ((q, status) # pend) =
     (if q = p then (Some status, pend)
      else (case waitpid p pend of (r, pend') \<Rightarrow> (r, (q, status) # pend')))"

text \<open>
  \<^verbatim>\<open>printf\<close>'s conversions: \<^verbatim>\<open>%d\<close> is \<open>show_int\<close>, and \<^verbatim>\<open>%s\<close> of a pointer that may be
  \<^verbatim>\<open>NULL\<close> is \<open>show_str\<close> (glibc prints \<^verbatim>\<open>(null)\<close>).
\<close>

fun show_nat :: "nat \<Rightarrow> string" where
  "show_nat n =
     (if n < 10 then [''0123456789'' ! n]
      else show_nat (n div 10) @ [''0123456789'' ! (n mod 10)])"

declare show_nat.simps [simp del]

definition show_int :: "int \<Rightarrow> string" where
  "show_int i = (if i < 0 then CHR ''-'' # show_nat (nat (- i)) else show_nat (nat i))"

definition show_str :: "string option \<Rightarrow> string" where
  "show_str p = (case p of None \<Rightarrow> ''(null)'' | Some str \<Rightarrow> str)"

text \<open>
  \<^verbatim>\<open>atoi\<close>, as glibc has it on a machine with a \<^verbatim>\<open>long\<close> of 64 bits and an \<^verbatim>\<open>int\<close> of 32:
  \<^verbatim>\<open>(int) strtol(nptr, NULL, 10)\<close>. \<^verbatim>\<open>strtol\<close> skips white space, reads a sign, then the
  decimal digits up to the first other character; a value outside \<^verbatim>\<open>long\<close> is
  \<^verbatim>\<open>LONG_MAX\<close> or \<^verbatim>\<open>LONG_MIN\<close>. The cast to \<^verbatim>\<open>int\<close> keeps the low 32 bits, read as a signed
  number: the source stores the result in an \<^verbatim>\<open>int\<close>.
\<close>

definition digit_val :: "char \<Rightarrow> int option" where
  "digit_val c = map_of (zip ''0123456789'' [0, 1, 2, 3, 4, 5, 6, 7, 8, 9]) c"

text \<open>
  The digits are accumulated up to the bound \<open>cutoff\<close>: \<^verbatim>\<open>LONG_MAX\<close> after no sign or
  \<^verbatim>\<open>+\<close>, and \<open>2 ^ 63\<close>, the magnitude of \<^verbatim>\<open>LONG_MIN\<close>, after \<^verbatim>\<open>-\<close>.
\<close>

fun strtol_digits :: "int \<Rightarrow> int \<Rightarrow> string \<Rightarrow> int" where
  "strtol_digits cutoff acc [] = acc"
| "strtol_digits cutoff acc (c # cs) =
     (case digit_val c of
        None \<Rightarrow> acc
      | Some d \<Rightarrow> strtol_digits cutoff (min cutoff (10 * acc + d)) cs)"

definition isspace :: "char \<Rightarrow> bool" where
  "isspace c = (c \<in> set [CHR '' '', CHR 0x09, CHR 0x0A, CHR 0x0B, CHR 0x0C, CHR 0x0D])"

definition strtol :: "string \<Rightarrow> int" where
  "strtol str =
     (case dropWhile isspace str of
        [] \<Rightarrow> 0
      | c # cs \<Rightarrow>
          (if c = CHR ''-'' then - strtol_digits (2 ^ 63) 0 cs
           else if c = CHR ''+'' then strtol_digits (2 ^ 63 - 1) 0 cs
           else strtol_digits (2 ^ 63 - 1) 0 (c # cs)))"

definition int_of_long :: "int \<Rightarrow> int" where
  "int_of_long x = (x + 2 ^ 31) mod 2 ^ 32 - 2 ^ 31"

definition atoi :: "string \<Rightarrow> int" where
  "atoi str = int_of_long (strtol str)"

text \<open>
  What \<^verbatim>\<open>argv[0]\<close> is, for a built-in that is handed the rest of the token array:
  \<open>Some None\<close> is \<^verbatim>\<open>NULL\<close> (the end of the arguments), \<open>Some (Some a)\<close> a string. Reading
  past the array, or reading a separator as if it pointed to a string, is a fault:
  \<open>None\<close>.
\<close>

fun argv0 :: "token list \<Rightarrow> string option option" where
  "argv0 (T_NULL # rest) = Some None"
| "argv0 (T_STR a # rest) = Some (Some a)"
| "argv0 rest = None"

section \<open>The SIGCHLD handler\<close>

text \<open>The body of the inner loop, for one process that is not \<^verbatim>\<open>FINISHED\<close>.\<close>

definition sigchld_proc :: "proc_t \<Rightarrow> (int \<times> int) list \<Rightarrow> proc_t \<times> (int \<times> int) list" where
  "sigchld_proc p pend =
     (case waitpid (pid p) pend of
        (None, pend') \<Rightarrow> (p, pend')
      | (Some status, pend') \<Rightarrow>
          (if WIFEXITED status \<or> WIFSIGNALED status
             then (p\<lparr>pstate := FINISHED, pexitcode := WEXITSTATUS status\<rparr>, pend')
           else if WIFCONTINUED status then (p\<lparr>pstate := RUNNING\<rparr>, pend')
           else if WIFSTOPPED status then (p\<lparr>pstate := STOPPED\<rparr>, pend')
           else (p, pend')))"

text \<open>
  The inner loop over the processes of one job; the two flags are \<^verbatim>\<open>has_running\<close> and
  \<^verbatim>\<open>has_stopped\<close>.
\<close>

fun sigchld_procs ::
  "proc_t list \<Rightarrow> (int \<times> int) list \<Rightarrow> bool \<Rightarrow> bool \<Rightarrow>
   proc_t list \<times> (int \<times> int) list \<times> bool \<times> bool" where
  "sigchld_procs [] pend has_running has_stopped = ([], pend, has_running, has_stopped)"
| "sigchld_procs (p # ps) pend has_running has_stopped =
     (if pstate p = FINISHED then
        (case sigchld_procs ps pend has_running has_stopped of
           (ps', r) \<Rightarrow> (p # ps', r))
      else
        (case sigchld_proc p pend of
           (p', pend') \<Rightarrow>
             (case sigchld_procs ps pend'
                     (if pstate p' = RUNNING then True else has_running)
                     (if pstate p' = RUNNING then has_stopped
                      else if pstate p' = STOPPED then True else has_stopped) of
                (ps', r) \<Rightarrow> (p' # ps', r))))"

text \<open>The body of the outer loop, for one slot.\<close>

definition sigchld_job :: "job_t \<Rightarrow> (int \<times> int) list \<Rightarrow> job_t \<times> (int \<times> int) list" where
  "sigchld_job job pend =
     (if pgid job = 0 then (job, pend)
      else
        (case sigchld_procs (proc job) pend False False of
           (ps', pend', has_running, has_stopped) \<Rightarrow>
             (job\<lparr>proc := ps',
                   state := (if has_running then RUNNING
                             else if has_stopped then STOPPED
                             else FINISHED)\<rparr>, pend')))"

fun sigchld_jobs :: "job_t list \<Rightarrow> (int \<times> int) list \<Rightarrow> job_t list \<times> (int \<times> int) list" where
  "sigchld_jobs [] pend = ([], pend)"
| "sigchld_jobs (job # js) pend =
     (case sigchld_job job pend of
        (job', pend') \<Rightarrow>
          (case sigchld_jobs js pend' of (js', pend'') \<Rightarrow> (job' # js', pend'')))"

definition sigchld_handler :: "shell \<Rightarrow> shell" where
  "sigchld_handler s =
     (case sigchld_jobs (jobs s) (pending s) of
        (js, pend) \<Rightarrow> s\<lparr>jobs := js, pending := pend\<rparr>)"

text \<open>
  The rule of the spec for the aggregate state: \<^verbatim>\<open>RUNNING\<close> if any process is
  \<^verbatim>\<open>RUNNING\<close>, else \<^verbatim>\<open>STOPPED\<close> if any is \<^verbatim>\<open>STOPPED\<close>, else \<^verbatim>\<open>FINISHED\<close>.
\<close>

definition derive :: "proc_t list \<Rightarrow> jstate" where
  "derive ps =
     (if (\<exists>p \<in> set ps. pstate p = RUNNING) then RUNNING
      else if (\<exists>p \<in> set ps. pstate p = STOPPED) then STOPPED
      else FINISHED)"

section \<open>The job table\<close>

text \<open>
  \<^verbatim>\<open>exitcode\<close> reads \<^verbatim>\<open>job->proc[job->nproc - 1]\<close>; with no process that is a read before
  the array: \<open>None\<close>.
\<close>

definition exitcode :: "job_t \<Rightarrow> int option" where
  "exitcode job = (if proc job = [] then None else Some (pexitcode (last (proc job))))"

text \<open>
  \<^verbatim>\<open>allocjob\<close>: the first free background slot, or a new slot at the end. \<^verbatim>\<open>realloc\<close>
  leaves the new slot uninitialised; its only caller \<^verbatim>\<open>addjob\<close> writes every field of
  it, so the model starts it as \<open>fresh_slot\<close>.
\<close>

function allocjob_loop :: "nat \<Rightarrow> job_t list \<Rightarrow> nat option" where
  "allocjob_loop j js =
     (if j < length js then (if pgid (js ! j) = 0 then Some j else allocjob_loop (j + 1) js)
      else None)"
  by pat_completeness auto
termination
  by (relation "measure (\<lambda>(j, js). length js - j)") auto

declare allocjob_loop.simps [simp del]

definition fresh_slot :: job_t where
  "fresh_slot = \<lparr>pgid = 0, proc = [], state = FINISHED, command = None\<rparr>"

definition allocjob :: "shell \<Rightarrow> nat \<times> shell" where
  "allocjob s =
     (case allocjob_loop BG (jobs s) of
        Some j \<Rightarrow> (j, s)
      | None \<Rightarrow> (njobmax s, s\<lparr>jobs := jobs s @ [fresh_slot]\<rparr>))"

text \<open>
  \<^verbatim>\<open>addjob\<close>. The source takes \<^verbatim>\<open>bg\<close> as an \<^verbatim>\<open>int\<close> and tests it for being nonzero. Slot
  \<^verbatim>\<open>FG\<close> exists from \<^verbatim>\<open>initjobs\<close> on; an empty table would be a write outside the array.
\<close>

definition addjob :: "int \<Rightarrow> bool \<Rightarrow> shell \<Rightarrow> nat outcome" where
  "addjob pgid' bg s =
     (case (if bg then allocjob s else (FG, s)) of
        (j, s1) \<Rightarrow>
          (if j < njobmax s1 then
             Return j (s1\<lparr>jobs := (jobs s1)
               [j := \<lparr>pgid = pgid', proc = [], state = RUNNING, command = None\<rparr>]\<rparr>)
           else Halt Fault s1))"

text \<open>A \<^verbatim>\<open>job_t*\<close> into the table is the index of the slot.\<close>

definition deljob :: "nat \<Rightarrow> shell \<Rightarrow> unit outcome" where
  "deljob j s =
     (if \<not> j < njobmax s then Halt Fault s
      else if state (jobs s ! j) \<noteq> FINISHED then Halt AssertFail s
      else Return () (s\<lparr>jobs := (jobs s)
             [j := (jobs s ! j)\<lparr>pgid := 0, command := None, proc := []\<rparr>]\<rparr>))"

definition movejob :: "nat \<Rightarrow> nat \<Rightarrow> shell \<Rightarrow> unit outcome" where
  "movejob from to s =
     (if \<not> (from < njobmax s \<and> to < njobmax s) then Halt Fault s
      else if pgid (jobs s ! to) \<noteq> 0 then Halt AssertFail s
      else Return () (s\<lparr>jobs := ((jobs s)[to := jobs s ! from])
             [from := \<lparr>pgid = 0, proc = [], state = state0 s, command = None\<rparr>]\<rparr>))"

text \<open>
  Modelled from the spec: \<^verbatim>\<open>strapp\<close> is declared in \<^verbatim>\<open>shell.h\<close> and defined outside the
  sources. It appends \<^verbatim>\<open>src\<close> to the string \<^verbatim>\<open>*dstp\<close>, which it allocates when \<^verbatim>\<open>*dstp\<close> is
  \<^verbatim>\<open>NULL\<close>: the spec has \<^verbatim>\<open>add_proc\<close> append the arguments joined by spaces to the command
  text, with \<^verbatim>\<open>" | "\<close> between stages.
\<close>

definition strapp :: "string option \<Rightarrow> string \<Rightarrow> string option" where
  "strapp dst src = (case dst of None \<Rightarrow> Some src | Some d \<Rightarrow> Some (d @ src))"

text \<open>
  \<^verbatim>\<open>mkcommand\<close>: \<open>argv\<close> is the token array from \<^verbatim>\<open>argv[0]\<close> on. The loop stops at the
  first \<^verbatim>\<open>NULL\<close>; reading a separator as a string, or past the array, is a fault
  (\<open>None\<close>), and so is a first argument that is \<^verbatim>\<open>NULL\<close>.
\<close>

fun mkcommand_loop :: "string option \<Rightarrow> token list \<Rightarrow> string option option" where
  "mkcommand_loop cmd (T_NULL # argv) = Some cmd"
| "mkcommand_loop cmd (T_STR a # argv) = mkcommand_loop (strapp (strapp cmd '' '') a) argv"
| "mkcommand_loop cmd argv = None"

definition mkcommand :: "string option \<Rightarrow> token list \<Rightarrow> string option option" where
  "mkcommand cmd argv =
     (case argv of
        T_STR a # rest \<Rightarrow>
          mkcommand_loop (strapp (if cmd \<noteq> None then strapp cmd '' | '' else cmd) a) rest
      | _ \<Rightarrow> None)"

text \<open>\<^verbatim>\<open>addproc\<close>, with \<^verbatim>\<open>allocproc\<close> inlined: the new record is appended.\<close>

definition addproc :: "nat \<Rightarrow> int \<Rightarrow> token list \<Rightarrow> shell \<Rightarrow> unit outcome" where
  "addproc j pid' argv s =
     (if \<not> j < njobmax s then Halt AssertFail s
      else
        (let job = jobs s ! j;
             job1 = job\<lparr>proc := proc job @ [\<lparr>pid = pid', pstate = RUNNING, pexitcode = - 1\<rparr>]\<rparr>
         in case mkcommand (command job1) argv of
              None \<Rightarrow> Halt Fault (s\<lparr>jobs := (jobs s)[j := job1]\<rparr>)
            | Some cmd \<Rightarrow> Return () (s\<lparr>jobs := (jobs s)[j := job1\<lparr>command := cmd\<rparr>]\<rparr>)))"

text \<open>
  \<^verbatim>\<open>jobstate\<close>, as the source has it: the test and the deletion are on \<^verbatim>\<open>jobs\<close>, that is
  on slot 0, whatever \<open>j\<close> is. The second component of the result is what is stored
  through \<^verbatim>\<open>statusp\<close>, if anything.
\<close>

definition jobstate :: "nat \<Rightarrow> shell \<Rightarrow> (jstate \<times> int option) outcome" where
  "jobstate j s =
     (if \<not> j < njobmax s then Halt AssertFail s
      else
        (let job = jobs s ! j; st = state job
         in if state (jobs s ! 0) = FINISHED then
              (case exitcode job of
                 None \<Rightarrow> Halt Fault s
               | Some e \<Rightarrow> bindO (deljob 0 s) (\<lambda>_ s1. Return (st, Some e) s1))
            else Return (st, None) s))"

definition jobcmd :: "nat \<Rightarrow> shell \<Rightarrow> string option outcome" where
  "jobcmd j s = (if \<not> j < njobmax s then Halt AssertFail s else Return (command (jobs s ! j)) s)"

section \<open>The foreground monitor\<close>

text \<open>
  \<^verbatim>\<open>Sigsuspend\<close>: the shell sleeps until a signal is handled. The only signal of the model
  is \<^verbatim>\<open>SIGCHLD\<close>: the next batch of status changes arrives and \<^verbatim>\<open>sigchld_handler\<close> runs.
  With no batch left the shell sleeps for ever.
\<close>

definition Sigsuspend :: "shell \<Rightarrow> unit outcome" where
  "Sigsuspend s =
     (case future s of
        [] \<Rightarrow> Halt Blocked s
      | batch # rest \<Rightarrow>
          Return () (sigchld_handler (s\<lparr>pending := pending s @ batch, future := rest\<rparr>)))"

lemma bindO_cong [fundef_cong]:
  "m = m' \<Longrightarrow> (\<And>a s. m' = Return a s \<Longrightarrow> f a s = f' a s) \<Longrightarrow> bindO m f = bindO m' f'"
  by (cases m') (simp_all add: bindO_def)

lemma future_sigchld_handler: "future (sigchld_handler s) = future s"
  by (simp add: sigchld_handler_def split: prod.splits)

lemma Sigsuspend_future:
  "Sigsuspend s = Return a s1 \<Longrightarrow> length (future s1) < length (future s)"
  by (auto simp: Sigsuspend_def future_sigchld_handler split: list.splits)

text \<open>
  The loop of \<^verbatim>\<open>monitorjob\<close>. \<^verbatim>\<open>fg_job\<close> points to slot \<^verbatim>\<open>FG\<close>; the result is the value of
  \<^verbatim>\<open>exitcode\<close> at the \<^verbatim>\<open>break\<close>, which is \<open>- 1\<close> before the loop.
\<close>

function monitorjob_loop :: "shell \<Rightarrow> int outcome" where
  "monitorjob_loop s =
     bindO (Sigsuspend s) (\<lambda>_ s1.
       (case state (jobs s1 ! FG) of
          STOPPED \<Rightarrow>
            bindO (addjob 0 True s1) (\<lambda>bg s2.
            bindO (movejob FG bg s2) (\<lambda>_ s3. Return (- 1) s3))
        | FINISHED \<Rightarrow>
            (if proc (jobs s1 ! FG) = [] then Halt AssertFail s1
             else Return (pexitcode (last (proc (jobs s1 ! FG)))) s1)
        | RUNNING \<Rightarrow> monitorjob_loop s1))"
  by pat_completeness auto
termination
  by (relation "measure (\<lambda>s. length (future s))") (auto dest: Sigsuspend_future)

declare monitorjob_loop.simps [simp del]

definition monitorjob :: "shell \<Rightarrow> int outcome" where
  "monitorjob s =
     (if \<not> FG < njobmax s then Halt Fault s
      else if pgid (jobs s ! FG) = 0 then Halt AssertFail s
      else
        bindO (monitorjob_loop (call (Tcsetpgrp (tty_fd s) (pgid (jobs s ! FG))) s)) (\<lambda>e s1.
          Return e (call (Tcsetpgrp (tty_fd s1) (shell_pgrp s1)) s1)))"

section \<open>Resuming, killing and reporting jobs\<close>

text \<open>The selection loop of \<^verbatim>\<open>resumejob\<close>, run when \<^verbatim>\<open>j < 0\<close>; it starts at \<^verbatim>\<open>njobmax - 1\<close>.\<close>

fun resumejob_select :: "nat \<Rightarrow> job_t list \<Rightarrow> nat" where
  "resumejob_select 0 js = 0"
| "resumejob_select (Suc j) js =
     (if state (js ! Suc j) = FINISHED then resumejob_select j js else Suc j)"

text \<open>
  \<^verbatim>\<open>resumejob\<close>. With an empty table the selection would start at \<open>- 1\<close> and read before
  the array. \<^verbatim>\<open>Kill\<close> is the wrapper that ends the shell when \<^verbatim>\<open>kill\<close> fails; the model
  takes it to succeed.
\<close>

definition resumejob :: "int \<Rightarrow> bool \<Rightarrow> shell \<Rightarrow> bool outcome" where
  "resumejob j bg s =
     (if j < 0 \<and> njobmax s = 0 then Halt Fault s
      else
        (let j1 = (if j < 0 then resumejob_select (njobmax s - 1) (jobs s) else nat j)
         in if j1 \<ge> njobmax s \<or> state (jobs s ! j1) = FINISHED then Return False s
            else
              (let s1 = call (Kill (- pgid (jobs s ! j1)) SIGCONT) s
               in if \<not> bg then
                    bindO (movejob j1 FG s1) (\<lambda>_ s2.
                    bindO (monitorjob s2) (\<lambda>_ s3. Return True s3))
                  else Return True s1)))"

text \<open>\<^verbatim>\<open>killjob\<close>; \<^verbatim>\<open>debug\<close> prints nothing, \<^verbatim>\<open>DEBUG\<close> being 0. A negative \<open>j\<close> reads before the array.\<close>

definition killjob :: "int \<Rightarrow> shell \<Rightarrow> bool outcome" where
  "killjob j s =
     (if j \<ge> int (njobmax s) then Return False s
      else if j < 0 then Halt Fault s
      else if state (jobs s ! nat j) = FINISHED then Return False s
      else if pgid (jobs s ! nat j) = 0 then Return False s
      else Return True (call (Kill (- pgid (jobs s ! nat j)) SIGTERM) s))"

text \<open>The body of the loop of \<^verbatim>\<open>watchjobs\<close> for an occupied slot \<open>j\<close>.\<close>

definition watchjob :: "which \<Rightarrow> nat \<Rightarrow> shell \<Rightarrow> unit outcome" where
  "watchjob which j s =
     (let job = jobs s ! j
      in if which = ALL_JOBS \<or> which = Only (state job) then
           (let s1 = msg (''['' @ show_int (int j) @ ''] '') s
            in case state job of
                 FINISHED \<Rightarrow>
                   (case exitcode job of
                      None \<Rightarrow> Halt Fault s1
                    | Some e \<Rightarrow>
                        deljob j (msg (''exited, status='' @ show_int e @ '' ('' @
                                       show_str (command job) @ '')'' @ [CHR 0x0A]) s1))
               | STOPPED \<Rightarrow>
                   Return () (msg (''stopped ('' @ show_str (command job) @ '')'' @ [CHR 0x0A]) s1)
               | RUNNING \<Rightarrow>
                   Return () (msg (''running ('' @ show_str (command job) @ '')'' @ [CHR 0x0A]) s1))
         else Return () s)"

lemma deljob_njobmax: "deljob j s = Return a s1 \<Longrightarrow> njobmax s1 = njobmax s"
  by (auto simp: deljob_def njobmax_def split: if_splits)

lemma watchjob_njobmax: "watchjob which j s = Return a s1 \<Longrightarrow> njobmax s1 = njobmax s"
  by (auto simp: watchjob_def Let_def msg_def njobmax_def deljob_def
      split: if_splits jstate.splits option.splits)

function watchjobs_loop :: "which \<Rightarrow> nat \<Rightarrow> shell \<Rightarrow> unit outcome" where
  "watchjobs_loop which j s =
     (if j < njobmax s then
        (if pgid (jobs s ! j) = 0 then watchjobs_loop which (j + 1) s
         else bindO (watchjob which j s) (\<lambda>_ s1. watchjobs_loop which (j + 1) s1))
      else Return () s)"
  by pat_completeness auto
termination
  by (relation "measure (\<lambda>(which, j, s). njobmax s - j)") (auto dest: watchjob_njobmax)

declare watchjobs_loop.simps [simp del]

definition watchjobs :: "which \<Rightarrow> shell \<Rightarrow> unit outcome" where
  "watchjobs which s = watchjobs_loop which BG s"

section \<open>The built-in commands\<close>

text \<open>
  Each built-in is handed \<^verbatim>\<open>&argv[1]\<close>, the token array after the command's name. A
  signal mask has no content in the model: the two calls of \<^verbatim>\<open>Sigprocmask\<close> are logged.
\<close>

definition do_quit :: "token list \<Rightarrow> shell \<Rightarrow> int outcome" where
  "do_quit argv s = Halt (Exited 0) s"

definition do_chdir :: "token list \<Rightarrow> shell \<Rightarrow> int outcome" where
  "do_chdir argv s =
     (case argv0 argv of
        None \<Rightarrow> Halt Fault s
      | Some a \<Rightarrow>
          (let path = (if a = None then home s else a);
               s1 = call (Chdir path) s
           in case chdir_error s path of
                Some err \<Rightarrow>
                  Return 1 (msg (''cd: '' @ err @ '': '' @ show_str path @ [CHR 0x0A]) s1)
              | None \<Rightarrow> Return 0 s1))"

definition do_jobs :: "token list \<Rightarrow> shell \<Rightarrow> int outcome" where
  "do_jobs argv s = bindO (watchjobs ALL_JOBS s) (\<lambda>_ s1. Return 0 s1)"

definition do_fg :: "token list \<Rightarrow> shell \<Rightarrow> int outcome" where
  "do_fg argv s =
     (case argv0 argv of
        None \<Rightarrow> Halt Fault s
      | Some a \<Rightarrow>
          (let j = (case a of Some str \<Rightarrow> atoi str | None \<Rightarrow> - 1)
           in bindO (resumejob j False (call Sigprocmask_block s)) (\<lambda>found s1.
                Return 0 (call Sigprocmask_setmask
                  (if \<not> found
                   then msg (''fg: job not found: '' @ show_str a @ [CHR 0x0A]) s1
                   else s1)))))"

definition do_bg :: "token list \<Rightarrow> shell \<Rightarrow> int outcome" where
  "do_bg argv s =
     (case argv0 argv of
        None \<Rightarrow> Halt Fault s
      | Some a \<Rightarrow>
          (let j = (case a of Some str \<Rightarrow> atoi str | None \<Rightarrow> - 1)
           in bindO (resumejob j True (call Sigprocmask_block s)) (\<lambda>found s1.
                Return 0 (call Sigprocmask_setmask
                  (if \<not> found
                   then msg (''bg: job not found: '' @ show_str a @ [CHR 0x0A]) s1
                   else s1)))))"

definition do_kill :: "token list \<Rightarrow> shell \<Rightarrow> int outcome" where
  "do_kill argv s =
     (case argv0 argv of
        None \<Rightarrow> Halt Fault s
      | Some None \<Rightarrow> Return (- 1) s
      | Some (Some str) \<Rightarrow>
          (if str = [] \<or> hd str \<noteq> CHR ''%'' then Return (- 1) s
           else
             bindO (killjob (atoi (tl str)) (call Sigprocmask_block s)) (\<lambda>found s1.
               Return 0 (call Sigprocmask_setmask
                 (if \<not> found
                  then msg (''kill: job not found: '' @ str @ [CHR 0x0A]) s1
                  else s1)))))"

text \<open>
  \<^verbatim>\<open>builtin_command\<close>: the table is searched in its order; \<open>- 1\<close> says that the command is
  no built-in. \<^verbatim>\<open>strcmp\<close> on an \<^verbatim>\<open>argv[0]\<close> that is no string is a fault.
\<close>

definition builtin_command :: "token list \<Rightarrow> shell \<Rightarrow> int outcome" where
  "builtin_command argv s =
     (case argv0 argv of
        Some (Some name) \<Rightarrow>
          (if name = ''quit'' then do_quit (tl argv) s
           else if name = ''cd'' then do_chdir (tl argv) s
           else if name = ''jobs'' then do_jobs (tl argv) s
           else if name = ''fg'' then do_fg (tl argv) s
           else if name = ''bg'' then do_bg (tl argv) s
           else if name = ''kill'' then do_kill (tl argv) s
           else Return (- 1) s)
      | _ \<Rightarrow> Halt Fault s)"

section \<open>Redirections\<close>

text \<open>
  \<^verbatim>\<open>open\<close> returns the next free descriptor, or \<open>- 1\<close> when the file cannot be opened.
  The flag of \<open>Open\<close> says whether the file is opened for reading (\<^verbatim>\<open>O_RDONLY\<close>) or for
  writing (\<^verbatim>\<open>O_WRONLY | O_CREAT\<close>).
\<close>

definition os_open :: "string \<Rightarrow> bool \<Rightarrow> shell \<Rightarrow> int \<times> shell" where
  "os_open filename rd s =
     (if openable s filename rd
      then (next_fd s, (call (Open filename rd (next_fd s)) s)\<lparr>next_fd := next_fd s + 1\<rparr>)
      else (- 1, call (Open filename rd (- 1)) s))"

text \<open>The loop that moves the tokens after a redirection two places down.\<close>

function shift_loop :: "token list \<Rightarrow> nat \<Rightarrow> nat \<Rightarrow> token list" where
  "shift_loop token ntokens j =
     (if j < ntokens then shift_loop (token[j - 2 := token ! j]) ntokens (j + 1) else token)"
  by pat_completeness auto
termination
  by (relation "measure (\<lambda>(token, ntokens, j). ntokens - j)") auto

declare shift_loop.simps [simp del]

definition compact :: "token list \<Rightarrow> nat \<Rightarrow> nat \<Rightarrow> token list" where
  "compact token ntokens i =
     (shift_loop token ntokens (i + 2))[ntokens - 2 := T_NULL, ntokens - 1 := T_NULL]"

lemma length_shift_loop: "length (shift_loop token ntokens j) = length token"
proof (induction token ntokens j rule: shift_loop.induct)
  case (1 token ntokens j)
  show ?case
  proof (cases "j < ntokens")
    case True
    with "1.IH" show ?thesis by (subst shift_loop.simps) simp
  next
    case False
    then show ?thesis by (subst shift_loop.simps) simp
  qed
qed

lemma nth_shift_loop:
  "ntokens \<le> length token \<Longrightarrow> k < length token \<Longrightarrow>
     shift_loop token ntokens (m + 2) ! k =
       (if m \<le> k \<and> k + 2 < ntokens then token ! (k + 2) else token ! k)"
proof (induction "ntokens - m" arbitrary: token m)
  case 0
  then show ?case by (subst shift_loop.simps) auto
next
  case (Suc d)
  show ?case
  proof (cases "m + 2 < ntokens")
    case True
    let ?token = "token[m := token ! (m + 2)]"
    have step: "shift_loop token ntokens (m + 2) = shift_loop ?token ntokens (Suc m + 2)"
      using True by (subst shift_loop.simps) simp
    have "d = ntokens - Suc m" using Suc.hyps(2) by simp
    from Suc.hyps(1) [OF this, of ?token] Suc.prems
    have "shift_loop ?token ntokens (Suc m + 2) ! k =
            (if Suc m \<le> k \<and> k + 2 < ntokens then ?token ! (k + 2) else ?token ! k)"
      by simp
    with step True Suc.prems show ?thesis
      by (auto simp: nth_list_update)
  next
    case False
    then show ?thesis by (subst shift_loop.simps) auto
  qed
qed

lemma length_compact: "length (compact token ntokens i) = length token"
  by (simp add: compact_def length_shift_loop)

lemma nth_compact:
  "ntokens \<le> length token \<Longrightarrow> i + 2 \<le> ntokens \<Longrightarrow> k < length token \<Longrightarrow>
     compact token ntokens i ! k =
       (if k < i then token ! k
        else if k + 2 < ntokens then token ! (k + 2)
        else if k < ntokens then T_NULL
        else token ! k)"
  using nth_shift_loop [of ntokens token k i]
  by (auto simp: compact_def nth_list_update length_shift_loop)

text \<open>
  The tokens still to scan: the measure under which the loop of \<^verbatim>\<open>do_redir\<close> ends.
\<close>

definition redir_todo :: "token list \<Rightarrow> nat \<Rightarrow> nat \<Rightarrow> nat set" where
  "redir_todo token ntokens i = {j. i \<le> j \<and> j < ntokens \<and> token ! j \<noteq> T_NULL}"

lemma finite_redir_todo: "finite (redir_todo token ntokens i)"
  by (simp add: redir_todo_def)

lemma redir_todo_skip:
  "i < ntokens \<Longrightarrow> token ! i \<noteq> T_NULL \<Longrightarrow>
     card (redir_todo token ntokens (i + 1)) < card (redir_todo token ntokens i)"
proof (rule psubset_card_mono [OF finite_redir_todo])
  assume "i < ntokens" "token ! i \<noteq> T_NULL"
  then have "i \<in> redir_todo token ntokens i" "i \<notin> redir_todo token ntokens (i + 1)"
    by (simp_all add: redir_todo_def)
  moreover have "redir_todo token ntokens (i + 1) \<subseteq> redir_todo token ntokens i"
    by (auto simp: redir_todo_def)
  ultimately show "redir_todo token ntokens (i + 1) \<subset> redir_todo token ntokens i"
    by blast
qed

lemma redir_todo_compact:
  assumes "ntokens \<le> length token" "i + 2 \<le> ntokens" "token ! i \<noteq> T_NULL"
  shows "card (redir_todo (compact token ntokens i) ntokens i) < card (redir_todo token ntokens i)"
proof -
  let ?A = "redir_todo token ntokens i"
  let ?B = "redir_todo (compact token ntokens i) ntokens i"
  have "compact token ntokens i ! j \<noteq> T_NULL \<longleftrightarrow>
          j + 2 < ntokens \<and> token ! (j + 2) \<noteq> T_NULL"
    if "i \<le> j" "j < ntokens" for j
    using that assms nth_compact [of ntokens token i j] by simp
  then have B: "?B = {j. i \<le> j \<and> j < ntokens \<and> j + 2 < ntokens \<and> token ! (j + 2) \<noteq> T_NULL}"
    unfolding redir_todo_def by (simp cong: conj_cong)
  have "(\<lambda>j. j + 2) ` ?B \<subseteq> ?A - {i}"
    unfolding B by (auto simp: redir_todo_def)
  then have "card ((\<lambda>j. j + 2) ` ?B) \<le> card (?A - {i})"
    by (intro card_mono) (simp_all add: finite_redir_todo)
  moreover have "card ((\<lambda>j. j + 2) ` ?B) = card ?B"
    by (rule card_image) (simp add: inj_on_def)
  moreover have "i \<in> ?A" using assms by (simp add: redir_todo_def)
  then have "card (?A - {i}) < card ?A"
    by (rule card_Diff1_less [OF finite_redir_todo])
  ultimately show ?thesis by simp
qed

fun filename_of :: "token \<Rightarrow> string" where
  "filename_of (T_STR a) = a"
| "filename_of t = []"

text \<open>
  The loop of \<^verbatim>\<open>do_redir\<close>. \<open>token\<close> is the array from the pointer \<^verbatim>\<open>token\<close> on; when it
  holds fewer than \<open>ntokens\<close> tokens the loop reads outside it (a fault). After a
  redirection the source decrements \<^verbatim>\<open>i\<close> and the loop increments it: the same index is
  scanned again. The last write is \<^verbatim>\<open>token[n] = NULL\<close>.
\<close>

function do_redir_loop ::
  "token list \<Rightarrow> nat \<Rightarrow> nat \<Rightarrow> nat \<Rightarrow> int \<Rightarrow> int \<Rightarrow> shell \<Rightarrow>
   (token list \<times> nat \<times> int \<times> int) outcome" where
  "do_redir_loop token ntokens i n input output s =
     (if \<not> ntokens \<le> length token then Halt Fault s
      else if i < ntokens \<and> token ! i \<noteq> T_NULL then
        (if token ! i = T_INPUT \<or> token ! i = T_OUTPUT then
           (if \<not> (i + 1 \<noteq> ntokens \<and> string_p (token ! (i + 1))) then Halt AssertFail s
            else if token ! i = T_INPUT then
              (case os_open (filename_of (token ! (i + 1))) True
                      (if input \<noteq> - 1 then call (Close input) s else s) of
                 (fd, s1) \<Rightarrow> do_redir_loop (compact token ntokens i) ntokens i n fd output s1)
            else
              (case os_open (filename_of (token ! (i + 1))) False
                      (if output \<noteq> - 1 then call (Close output) s else s) of
                 (fd, s1) \<Rightarrow> do_redir_loop (compact token ntokens i) ntokens i n input fd s1))
         else do_redir_loop token ntokens (i + 1) (n + 1) input output s)
      else if n < length token then Return (token[n := T_NULL], n, input, output) s
      else Halt Fault s)"
  by pat_completeness auto
termination
proof (relation "measure (\<lambda>(token, ntokens, i, n, inp, outp, s).
                   card (redir_todo token ntokens i))", goal_cases)
  case 1
  show ?case by simp
next
  case (2 token ntokens i n inp outp s fd s1)
  then show ?case by (simp add: redir_todo_compact)
next
  case (3 token ntokens i n inp outp s fd s1)
  then show ?case by (simp add: redir_todo_compact)
next
  case (4 token ntokens i n inp outp s)
  then show ?case using redir_todo_skip by simp
qed

declare do_redir_loop.simps [simp del]

definition do_redir ::
  "token list \<Rightarrow> nat \<Rightarrow> int \<Rightarrow> int \<Rightarrow> shell \<Rightarrow> (token list \<times> nat \<times> int \<times> int) outcome" where
  "do_redir token ntokens input output s = do_redir_loop token ntokens 0 0 input output s"

section \<open>Launching commands\<close>

text \<open>
  \<^verbatim>\<open>Fork\<close> in the shell: the child's pid is returned (it is positive: \<open>next_pid\<close> is taken
  to be), and the call is logged with what the child runs. \<^verbatim>\<open>argv_of\<close> is the argument
  vector a token array holds: the tokens before the first \<^verbatim>\<open>NULL\<close>.
\<close>

definition os_fork :: "call list \<Rightarrow> shell \<Rightarrow> int \<times> shell" where
  "os_fork prog s = (next_pid s, (call (Fork (next_pid s) prog) s)\<lparr>next_pid := next_pid s + 1\<rparr>)"

definition argv_of :: "token list \<Rightarrow> token list" where
  "argv_of token = takeWhile (\<lambda>t. t \<noteq> T_NULL) token"

text \<open>What the child of \<^verbatim>\<open>do_job\<close> runs: the branch \<^verbatim>\<open>if (!pid)\<close>.\<close>

definition do_job_child :: "int \<Rightarrow> int \<Rightarrow> token list \<Rightarrow> call list" where
  "do_job_child input output token =
     [Sigprocmask_setmask, Signal_dfl SIGTSTP, Signal_dfl SIGTTIN, Signal_dfl SIGTTOU] @
     (if output \<noteq> - 1 then [Dup2 output 1] else []) @
     (if input \<noteq> - 1 then [Dup2 input 0] else []) @
     [External_command (argv_of token)]"

definition do_job :: "token list \<Rightarrow> nat \<Rightarrow> bool \<Rightarrow> shell \<Rightarrow> int outcome" where
  "do_job token ntokens bg s =
     bindO (do_redir token ntokens (- 1) (- 1) s) (\<lambda>(token1, ntokens1, input, output) s1.
     bindO (builtin_command token1 s1) (\<lambda>exitcode' s2.
       if exitcode' \<ge> 0 then Return exitcode' s2
       else
         (case os_fork (do_job_child input output token1) (call Sigprocmask_block s2) of
            (pid', s3) \<Rightarrow>
              bindO (addjob pid' bg (call (Setpgid pid' pid') s3)) (\<lambda>job s4.
              bindO (addproc job pid' token1 s4) (\<lambda>_ s5.
                (let s6 = (if output \<noteq> - 1 then call (Close output) s5 else s5);
                     s7 = (if input \<noteq> - 1 then call (Close input) s6 else s6)
                 in if \<not> bg then
                      bindO (monitorjob s7) (\<lambda>e s8. Return e (call Sigprocmask_setmask s8))
                    else
                      bindO (jobcmd job s7) (\<lambda>cmd s8.
                        Return exitcode' (call Sigprocmask_setmask
                          (msg (''['' @ show_int (int job) @ ''] running '' @ [CHR 0x27] @
                                show_str cmd @ [CHR 0x27, CHR 0x0A]) s8)))))))))"

text \<open>
  What the child of \<^verbatim>\<open>do_stage\<close> runs. The child has a copy of the shell's memory; it
  has no children of its own, so nothing is pending for it and no \<^verbatim>\<open>SIGCHLD\<close> comes.
\<close>

definition do_stage_child :: "int \<Rightarrow> int \<Rightarrow> token list \<Rightarrow> shell \<Rightarrow> call list" where
  "do_stage_child input output token s =
     (case builtin_command token
             (s\<lparr>calls :=
                  [Sigprocmask_setmask, Signal_dfl SIGTSTP, Signal_dfl SIGTTIN,
                   Signal_dfl SIGTTOU] @
                  (if input \<noteq> - 1 then [Dup2 input 0] else []) @
                  (if output \<noteq> - 1 then [Dup2 output 1] else []),
                pending := [], future := []\<rparr>) of
        Return exitcode' sc \<Rightarrow>
          (if exitcode' \<ge> 0 then calls sc @ [Exit exitcode']
           else calls sc @ [External_command (argv_of token)])
      | Halt r sc \<Rightarrow> calls sc @ [Halted r])"

text \<open>
  \<^verbatim>\<open>do_stage\<close> returns the pid; the token array of the stage, which \<^verbatim>\<open>do_redir\<close> has
  changed in place, is returned with it.
\<close>

definition do_stage ::
  "int \<Rightarrow> int \<Rightarrow> int \<Rightarrow> token list \<Rightarrow> nat \<Rightarrow> shell \<Rightarrow> (int \<times> token list) outcome" where
  "do_stage pgid' input output token ntokens s =
     bindO (do_redir token ntokens input output s) (\<lambda>(token1, ntokens1, input1, output1) s1.
       (case os_fork (do_stage_child input1 output1 token1 s1) s1 of
          (pid', s2) \<Rightarrow> Return (pid', token1) (call (Setpgid pid' pgid') s2)))"

definition mkpipe :: "shell \<Rightarrow> (int \<times> int) \<times> shell" where
  "mkpipe s =
     ((next_fd s, next_fd s + 1),
      (call (Pipe (next_fd s) (next_fd s + 1)) s)\<lparr>next_fd := next_fd s + 2\<rparr>)"

text \<open>The inner loop of \<^verbatim>\<open>do_pipeline\<close>: \<^verbatim>\<open>stage_end\<close> and \<^verbatim>\<open>is_last\<close>.\<close>

function stage_end_loop :: "token list \<Rightarrow> nat \<Rightarrow> nat \<Rightarrow> nat \<times> bool" where
  "stage_end_loop token ntokens stage_end =
     (if stage_end < ntokens then
        (if token ! stage_end = T_PIPE then (stage_end, False)
         else stage_end_loop token ntokens (stage_end + 1))
      else (stage_end, True))"
  by pat_completeness auto
termination
  by (relation "measure (\<lambda>(token, ntokens, stage_end). ntokens - stage_end)") auto

declare stage_end_loop.simps [simp del]

lemma stage_end_loop_ge:
  "stage_end_loop token ntokens j = (stage_end, is_last) \<Longrightarrow> j \<le> stage_end"
proof (induction token ntokens j rule: stage_end_loop.induct)
  case (1 token ntokens j)
  from "1.prems" show ?case
    by (subst (asm) stage_end_loop.simps) (auto split: if_splits dest: "1.IH")
qed

text \<open>
  The loop of \<^verbatim>\<open>do_pipeline\<close> over the stages. \<^verbatim>\<open>job\<close> is \<open>None\<close> while it is \<open>- 1\<close> in the
  source. The stage's array \<^verbatim>\<open>token + stage_start\<close> is \<open>drop stage_start token\<close>, and what
  \<^verbatim>\<open>do_stage\<close> has made of it is put back in its place. The loop yields \<^verbatim>\<open>job\<close> and
  \<^verbatim>\<open>next_input\<close>, which the code after it reads.
\<close>

function do_pipeline_loop ::
  "token list \<Rightarrow> nat \<Rightarrow> bool \<Rightarrow> nat \<Rightarrow> int \<Rightarrow> nat option \<Rightarrow> int \<Rightarrow> int \<Rightarrow> int \<Rightarrow> shell \<Rightarrow>
   (nat option \<times> int) outcome" where
  "do_pipeline_loop token ntokens bg stage_start pgid' job input output next_input s =
     (if \<not> ntokens \<le> length token then Halt Fault s
      else if stage_start < ntokens then
        (case stage_end_loop token ntokens stage_start of
           (stage_end, is_last) \<Rightarrow>
             (let token1 = (if is_last then token else token[stage_end := T_NULL]);
                  output1 = (if is_last then - 1 else output)
              in bindO (do_stage pgid' input output1 (drop stage_start token1)
                          (stage_end - stage_start) s) (\<lambda>(pid', stage_tokens) s1.
                   (let s2 = (if output1 \<noteq> - 1 then call (Close output1) s1 else s1);
                        s3 = (if input \<noteq> - 1 then call (Close input) s2 else s2)
                    in bindO (case job of
                                None \<Rightarrow> bindO (addjob pid' bg s3) (\<lambda>j s4. Return (pid', j) s4)
                              | Some j \<Rightarrow> Return (pgid', j) s3) (\<lambda>(pgid1, job1) s4.
                       bindO (addproc job1 pid' stage_tokens s4) (\<lambda>_ s5.
                         (case (if \<not> is_last then mkpipe s5 else ((next_input, output1), s5)) of
                            ((next_input1, output2), s6) \<Rightarrow>
                              do_pipeline_loop (take stage_start token1 @ stage_tokens) ntokens bg
                                (stage_end + 1) pgid1 (Some job1) next_input output2 next_input1
                                s6)))))))
      else Return (job, next_input) s)"
  by pat_completeness auto
termination
  by (relation "measure (\<lambda>(token, ntokens, bg, stage_start, rest). ntokens - stage_start)")
    (auto dest!: stage_end_loop_ge [OF sym])

declare do_pipeline_loop.simps [simp del]

definition do_pipeline :: "token list \<Rightarrow> nat \<Rightarrow> bool \<Rightarrow> shell \<Rightarrow> int outcome" where
  "do_pipeline token ntokens bg s =
     (let exitcode' = 0
      in case mkpipe s of
           ((next_input, output), s1) \<Rightarrow>
             bindO (do_pipeline_loop token ntokens bg 0 0 None (- 1) output next_input
                      (call Sigprocmask_block s1)) (\<lambda>(job, next_input1) s2.
               (let s3 = call (Close next_input1) s2
                in if \<not> bg then
                     bindO (monitorjob s3) (\<lambda>_ s4.
                       Return exitcode' (call Sigprocmask_setmask s4))
                   else
                     (case job of
                        None \<Rightarrow> Halt Fault s3
                      | Some j \<Rightarrow>
                          bindO (jobcmd j s3) (\<lambda>cmd s4.
                            Return exitcode' (call Sigprocmask_setmask
                              (msg (''['' @ show_int (int j) @ ''] running '' @ [CHR 0x27] @
                                    show_str cmd @ [CHR 0x27, CHR 0x0A]) s4)))))))"

definition is_pipeline :: "token list \<Rightarrow> nat \<Rightarrow> bool" where
  "is_pipeline token ntokens = list_ex (\<lambda>t. t = T_PIPE) (take ntokens token)"

text \<open>
  \<^verbatim>\<open>eval\<close> from the tokens on: \<^verbatim>\<open>tokenize\<close> is outside the sources, and the array it
  returns and the count \<^verbatim>\<open>ntokens\<close> are the arguments here.
\<close>

definition eval :: "token list \<Rightarrow> nat \<Rightarrow> shell \<Rightarrow> unit outcome" where
  "eval token ntokens s =
     (case (if ntokens > 0 \<and> token ! (ntokens - 1) = T_BGJOB
            then (token[ntokens - 1 := T_NULL], ntokens - 1, True)
            else (token, ntokens, False)) of
        (token1, ntokens1, bg) \<Rightarrow>
          (if ntokens1 > 0 then
             (if is_pipeline token1 ntokens1
              then bindO (do_pipeline token1 ntokens1 bg s) (\<lambda>_ s1. Return () s1)
              else bindO (do_job token1 ntokens1 bg s) (\<lambda>_ s1. Return () s1))
           else Return () s))"

section \<open>Example states\<close>

text \<open>
  \<open>shell0\<close> is a shell just after \<^verbatim>\<open>initjobs\<close>: one cleared slot, the terminal on
  descriptor 3, the shell in process group 50. Every file but \<^verbatim>\<open>nosuch\<close> can be
  opened. The next child gets pid 100.
\<close>

definition shell0 :: shell where
  "shell0 =
     \<lparr>jobs = [\<lparr>pgid = 0, proc = [], state = FINISHED, command = None\<rparr>],
      state0 = FINISHED, tty_fd = 3, shell_pgrp = 50, home = Some ''/root'', out = [],
      calls = [], next_pid = 100, next_fd = 4,
      openable = (\<lambda>filename rd. filename \<noteq> ''nosuch''), chdir_error = (\<lambda>path. None),
      pending = [], future = []\<rparr>"

text \<open>
  \<open>fg_running\<close>: the command \<^verbatim>\<open>ls\<close> runs in the foreground as pid 100, and one
  \<^verbatim>\<open>SIGCHLD\<close> is to come, for its exit with status 0.
\<close>

definition fg_running :: shell where
  "fg_running =
     shell0\<lparr>jobs := [\<lparr>pgid = 100,
                       proc = [\<lparr>pid = 100, pstate = RUNNING, pexitcode = - 1\<rparr>],
                       state = RUNNING, command = Some ''ls''\<rparr>],
            next_pid := 101, future := [[(100, 0)]]\<rparr>"

text \<open>
  \<open>two_stage\<close>: the job of a pipeline of two processes, both running; pid 100 has
  exited with status 0 and pid 101 has been stopped by signal 19 (wait status
  \<^verbatim>\<open>0x137f\<close>), and neither change has been collected yet.
\<close>

definition two_stage :: shell where
  "two_stage =
     shell0\<lparr>jobs := [\<lparr>pgid = 0, proc = [], state = FINISHED, command = None\<rparr>,
                      \<lparr>pgid = 100,
                       proc = [\<lparr>pid = 100, pstate = RUNNING, pexitcode = - 1\<rparr>,
                               \<lparr>pid = 101, pstate = RUNNING, pexitcode = - 1\<rparr>],
                       state = RUNNING, command = Some ''yes | head''\<rparr>],
            next_pid := 102, pending := [(100, 0), (101, 4991)]\<rparr>"

text \<open>
  \<open>bg_finished\<close>: the background job 1, \<^verbatim>\<open>sleep 5\<close>, has finished with exit code 0 and
  has not been reported yet.
\<close>

definition bg_finished :: shell where
  "bg_finished =
     shell0\<lparr>jobs := [\<lparr>pgid = 0, proc = [], state = FINISHED, command = None\<rparr>,
                      \<lparr>pgid = 100,
                       proc = [\<lparr>pid = 100, pstate = FINISHED, pexitcode = 0\<rparr>],
                       state = FINISHED, command = Some ''sleep 5''\<rparr>],
            next_pid := 101\<rparr>"

text \<open>\<open>bg_running\<close>: the background job 1, \<^verbatim>\<open>sleep 5\<close>, is running.\<close>

definition bg_running :: shell where
  "bg_running =
     shell0\<lparr>jobs := [\<lparr>pgid = 0, proc = [], state = FINISHED, command = None\<rparr>,
                      \<lparr>pgid = 100,
                       proc = [\<lparr>pid = 100, pstate = RUNNING, pexitcode = - 1\<rparr>],
                       state = RUNNING, command = Some ''sleep 5''\<rparr>],
            next_pid := 101\<rparr>"

text \<open>\<open>ls_exits\<close>: \<open>shell0\<close> with one \<^verbatim>\<open>SIGCHLD\<close> to come, for the exit of pid 100 with status 0.\<close>

definition ls_exits :: shell where
  "ls_exits = shell0\<lparr>future := [[(100, 0)]]\<rparr>"


definition kill_5 :: "token list" where
  "kill_5 = [T_STR ''kill'', T_STR ''5'', T_NULL]"

definition ls_cmd :: "token list" where
  "ls_cmd = [T_STR ''ls'', T_NULL]"

text \<open>
  The command \<^verbatim>\<open>cat < f < nosuch\<close>: the first file can be opened, the second cannot. The
  pipeline \<^verbatim>\<open>ls | wc\<close>, and \<open>ls_wc_exit\<close>, a shell in which the two children of the pipeline,
  pids 100 and 101, exit with status 0. The command \<^verbatim>\<open>sleep 9\<close>.
\<close>

definition cat_f_nosuch :: "token list" where
  "cat_f_nosuch = [T_STR ''cat'', T_INPUT, T_STR ''f'', T_INPUT, T_STR ''nosuch'', T_NULL]"

definition ls_wc :: "token list" where
  "ls_wc = [T_STR ''ls'', T_PIPE, T_STR ''wc'', T_NULL]"

definition ls_wc_exit :: shell where
  "ls_wc_exit = shell0\<lparr>future := [[(100, 0), (101, 0)]]\<rparr>"


section \<open>The reaper keeps the aggregate state derived\<close>

lemma sigchld_procs_flags:
  "sigchld_procs ps pend hr hs = (ps', pend', hr', hs') \<Longrightarrow>
     (hr' \<longleftrightarrow> hr \<or> (\<exists>p \<in> set ps'. pstate p = RUNNING)) \<and>
     (hs' \<longleftrightarrow> hs \<or> (\<exists>p \<in> set ps'. pstate p = STOPPED)) \<and>
     length ps' = length ps"
proof (induction ps arbitrary: pend hr hs ps' pend' hr' hs')
  case Nil
  then show ?case by simp
next
  case (Cons p ps)
  show ?case
  proof (cases "pstate p = FINISHED")
    case True
    then obtain qs where
      rec: "sigchld_procs ps pend hr hs = (qs, pend', hr', hs')" and ps': "ps' = p # qs"
      using Cons.prems by (auto split: prod.splits)
    from Cons.IH [OF rec] True ps' show ?thesis by auto
  next
    case False
    then obtain p1 pend1 qs where
      one: "sigchld_proc p pend = (p1, pend1)" and
      rec: "sigchld_procs ps pend1
              (if pstate p1 = RUNNING then True else hr)
              (if pstate p1 = RUNNING then hs
               else if pstate p1 = STOPPED then True else hs) = (qs, pend', hr', hs')" and
      ps': "ps' = p1 # qs"
      using Cons.prems by (auto split: prod.splits)
    from Cons.IH [OF rec] ps' show ?thesis
      by (cases "pstate p1") auto
  qed
qed

lemma sigchld_job_derived:
  "sigchld_job job pend = (job', pend') \<Longrightarrow> pgid job \<noteq> 0 \<Longrightarrow>
     state job' = derive (proc job') \<and> pgid job' = pgid job"
  unfolding sigchld_job_def derive_def
  by (auto split: prod.splits dest!: sigchld_procs_flags)

lemma sigchld_job_pgid:
  "sigchld_job job pend = (job', pend') \<Longrightarrow> pgid job' = pgid job"
  unfolding sigchld_job_def by (auto split: prod.splits if_splits)

lemma sigchld_jobs_derived:
  "sigchld_jobs js pend = (js', pend') \<Longrightarrow> j < length js' \<Longrightarrow> pgid (js' ! j) \<noteq> 0 \<Longrightarrow>
     state (js' ! j) = derive (proc (js' ! j))"
proof (induction js arbitrary: pend js' pend' j)
  case Nil
  then show ?case by simp
next
  case (Cons job js)
  from Cons.prems(1) obtain job1 pend1 js1 where
    one: "sigchld_job job pend = (job1, pend1)" and
    rec: "sigchld_jobs js pend1 = (js1, pend')" and
    js': "js' = job1 # js1"
    by (auto split: prod.splits)
  show ?case
  proof (cases j)
    case 0
    with Cons.prems(3) js' have "pgid job1 \<noteq> 0" by simp
    with sigchld_job_pgid [OF one] have "pgid job \<noteq> 0" by simp
    from sigchld_job_derived [OF one this] 0 js' show ?thesis by simp
  next
    case (Suc k)
    with Cons.prems js' have "k < length js1" "pgid (js1 ! k) \<noteq> 0" by simp_all
    from Cons.IH [OF rec this] Suc js' show ?thesis by simp
  qed
qed

text \<open>
  C8. After every invocation of the SIGCHLD handler, every occupied slot (its pgid is
  not 0 and it has at least one process) has its aggregate state equal to the state
  derived from its processes: RUNNING if any process is RUNNING, else STOPPED if any is
  STOPPED, else FINISHED.
\<close>

theorem sigchld_handler_aggregate:
  "j < njobmax (sigchld_handler s) \<Longrightarrow>
   pgid (jobs (sigchld_handler s) ! j) \<noteq> 0 \<Longrightarrow>
   1 \<le> nproc (jobs (sigchld_handler s) ! j) \<Longrightarrow>
     state (jobs (sigchld_handler s) ! j) = derive (proc (jobs (sigchld_handler s) ! j))"
proof -
  assume j: "j < njobmax (sigchld_handler s)"
    and occ: "pgid (jobs (sigchld_handler s) ! j) \<noteq> 0"
  obtain js pend where run: "sigchld_jobs (jobs s) (pending s) = (js, pend)"
    by (cases "sigchld_jobs (jobs s) (pending s)")
  then have eq: "jobs (sigchld_handler s) = js"
    by (simp add: sigchld_handler_def)
  from j occ show ?thesis
    unfolding eq njobmax_def by (rule sigchld_jobs_derived [OF run])
qed

theorem sigchld_handler_aggregate_witness:
  "1 < njobmax (sigchld_handler two_stage) \<and>
   pgid (jobs (sigchld_handler two_stage) ! 1) \<noteq> 0 \<and>
   1 \<le> nproc (jobs (sigchld_handler two_stage) ! 1) \<and>
   state (jobs (sigchld_handler two_stage) ! 1) =
     derive (proc (jobs (sigchld_handler two_stage) ! 1)) \<and>
   state (jobs (sigchld_handler two_stage) ! 1) = STOPPED"
proof -
  have run: "jobs (sigchld_handler two_stage) =
      [\<lparr>pgid = 0, proc = [], state = FINISHED, command = None\<rparr>,
       \<lparr>pgid = 100,
        proc = [\<lparr>pid = 100, pstate = FINISHED, pexitcode = 0\<rparr>,
                \<lparr>pid = 101, pstate = STOPPED, pexitcode = - 1\<rparr>],
        state = STOPPED, command = Some ''yes | head''\<rparr>]"
    by code_simp
  have h1: "1 < njobmax (sigchld_handler two_stage)"
    and h2: "pgid (jobs (sigchld_handler two_stage) ! 1) \<noteq> 0"
    and h3: "1 \<le> nproc (jobs (sigchld_handler two_stage) ! 1)"
    by (simp_all add: run njobmax_def nproc_def)
  from sigchld_handler_aggregate [OF h1 h2 h3] h1 h2 h3 show ?thesis
    by (simp add: run)
qed

section \<open>The exit code of a pipeline\<close>

text \<open>
  Whenever \<^verbatim>\<open>do_pipeline\<close> returns, it returns 0: the variable \<^verbatim>\<open>exitcode\<close> is set to 0
  and never assigned, and the result of \<^verbatim>\<open>monitorjob\<close> is dropped (\<^verbatim>\<open>do_job\<close> assigns it).
\<close>

lemma do_pipeline_returns_0: "do_pipeline token ntokens bg s = Return e s' \<Longrightarrow> e = 0"
  by (auto simp: do_pipeline_def bindO_def Let_def
      split: prod.splits outcome.splits if_splits option.splits)

text \<open>
  C1. The claim: for every pipeline of two or more stages run in the foreground, the
  exit code that the pipeline path returns is the exit code recorded for the last
  process of the job. The code at the pipeline \<^verbatim>\<open>true | false\<close>, run in the foreground,
  whose two processes exit with codes 0 and 1: the job's last process has exit code 1,
  as \<^verbatim>\<open>exitcode\<close> reads it, and \<^verbatim>\<open>do_pipeline\<close> returns 0.
\<close>

theorem do_pipeline_drops_exitcode:
  "result (do_pipeline [T_STR ''true'', T_PIPE, T_STR ''false'', T_NULL] 3 False
             (shell0\<lparr>future := [[(100, 0), (101, 256)]]\<rparr>)) = Some 0 \<and>
   exitcode (jobs (final (do_pipeline [T_STR ''true'', T_PIPE, T_STR ''false'', T_NULL] 3 False
             (shell0\<lparr>future := [[(100, 0), (101, 256)]]\<rparr>))) ! FG) = Some 1 \<and>
   map pexitcode (proc (jobs (final (do_pipeline
             [T_STR ''true'', T_PIPE, T_STR ''false'', T_NULL] 3 False
             (shell0\<lparr>future := [[(100, 0), (101, 256)]]\<rparr>))) ! FG)) = [0, 1]"
  by code_simp

section \<open>The foreground slot after a foreground job\<close>

lemma sigchld_jobs_pgid:
  "sigchld_jobs js pend = (js', pend') \<Longrightarrow> map pgid js' = map pgid js"
proof (induction js arbitrary: pend js' pend')
  case Nil
  then show ?case by simp
next
  case (Cons job js)
  from Cons.prems obtain job1 pend1 js1 where
    one: "sigchld_job job pend = (job1, pend1)" and
    rec: "sigchld_jobs js pend1 = (js1, pend')" and
    js': "js' = job1 # js1"
    by (auto split: prod.splits)
  from Cons.IH [OF rec] sigchld_job_pgid [OF one] js' show ?case by simp
qed

lemma sigchld_handler_pgid: "map pgid (jobs (sigchld_handler s)) = map pgid (jobs s)"
proof -
  obtain js pend where run: "sigchld_jobs (jobs s) (pending s) = (js, pend)"
    by (cases "sigchld_jobs (jobs s) (pending s)")
  from sigchld_jobs_pgid [OF run] run show ?thesis
    by (simp add: sigchld_handler_def)
qed

lemma Sigsuspend_pgid:
  "Sigsuspend s = Return a s1 \<Longrightarrow> map pgid (jobs s1) = map pgid (jobs s)"
  using sigchld_handler_pgid [of "s\<lparr>pending := pending s @ b, future := r\<rparr>" for b r]
  by (auto simp: Sigsuspend_def split: list.splits)

text \<open>
  When the loop of \<^verbatim>\<open>monitorjob\<close> returns an exit code, it has seen the job FINISHED, and
  slot 0 still holds the pgid of the job; only for a stopped job (the result is \<open>- 1\<close>,
  set before the loop) is slot 0 cleared.
\<close>

lemma monitorjob_loop_slot:
  "monitorjob_loop s = Return e s' \<Longrightarrow> jobs s \<noteq> [] \<Longrightarrow>
     (state (jobs s' ! FG) = FINISHED \<and> pgid (jobs s' ! FG) = pgid (jobs s ! FG)) \<or>
     (e = - 1 \<and> pgid (jobs s' ! FG) = 0)"
proof (induction s rule: monitorjob_loop.induct)
  case (1 s)
  from "1.prems"(1) obtain a s1 where susp: "Sigsuspend s = Return a s1"
    by (subst (asm) monitorjob_loop.simps) (auto simp: bindO_def split: outcome.splits)
  have same: "map pgid (jobs s1) = map pgid (jobs s)"
    using susp by (rule Sigsuspend_pgid)
  then have "length (jobs s1) = length (jobs s)"
    by (rule map_eq_imp_length_eq)
  with "1.prems"(2) have ne: "jobs s1 \<noteq> []" by auto
  with "1.prems"(2) have "map pgid (jobs s1) ! FG = pgid (jobs s1 ! FG)"
    "map pgid (jobs s) ! FG = pgid (jobs s ! FG)"
    by (simp_all add: FG_def)
  with same have pg: "pgid (jobs s1 ! FG) = pgid (jobs s ! FG)" by simp
  show ?case
  proof (cases "state (jobs s1 ! FG)")
    case FINISHED
    with "1.prems"(1) susp have "s' = s1"
      by (subst (asm) monitorjob_loop.simps) (auto simp: bindO_def split: if_splits)
    with FINISHED pg show ?thesis by simp
  next
    case RUNNING
    with "1.prems"(1) susp have "monitorjob_loop s1 = Return e s'"
      by (subst (asm) monitorjob_loop.simps) (auto simp: bindO_def)
    from "1.IH" [OF susp RUNNING this ne] pg show ?thesis by simp
  next
    case STOPPED
    with "1.prems"(1) susp obtain bg s2 where
      add: "addjob 0 True s1 = Return bg s2" and mv: "movejob FG bg s2 = Return () s'" and e: "e = - 1"
      by (subst (asm) monitorjob_loop.simps) (auto simp: bindO_def split: outcome.splits)
    from mv have "pgid (jobs s' ! FG) = 0"
      by (auto simp: movejob_def njobmax_def FG_def nth_list_update split: if_splits)
    with e show ?thesis by simp
  qed
qed

lemma monitorjob_keeps_finished_job:
  assumes "monitorjob s = Return e s'" and "e \<noteq> - 1"
  shows "state (jobs s' ! FG) = FINISHED \<and> pgid (jobs s' ! FG) = pgid (jobs s ! FG) \<and>
         pgid (jobs s' ! FG) \<noteq> 0"
proof -
  let ?s = "call (Tcsetpgrp (tty_fd s) (pgid (jobs s ! FG))) s"
  from assms(1) have ok: "FG < njobmax s" "pgid (jobs s ! FG) \<noteq> 0"
    by (auto simp: monitorjob_def split: if_splits)
  from assms(1) ok obtain s1 where
    loop: "monitorjob_loop ?s = Return e s1" and
    s': "s' = call (Tcsetpgrp (tty_fd s1) (shell_pgrp s1)) s1"
    by (auto simp: monitorjob_def bindO_def split: outcome.splits)
  from ok have "jobs ?s \<noteq> []" by (auto simp: njobmax_def)
  from monitorjob_loop_slot [OF loop this] assms(2) ok s' show ?thesis by simp
qed

text \<open>
  C2. The claim: when the monitor sees the foreground job \<^verbatim>\<open>FINISHED\<close>, it takes the exit
  code of the last process, deletes the foreground job and returns the exit code, so
  that slot 0 is empty between commands. The code at \<open>fg_running\<close>: \<^verbatim>\<open>monitorjob\<close>
  returns the exit code 0 and slot 0 still holds the finished job with pgid 100; and
  after a whole command, \<^verbatim>\<open>eval\<close> of \<^verbatim>\<open>ls\<close> followed by \<^verbatim>\<open>watchjobs(FINISHED)\<close> as in the main
  loop, slot 0 still holds it.
\<close>

theorem monitorjob_leaves_finished_job:
  "result (monitorjob fg_running) = Some 0 \<and>
   state (jobs (final (monitorjob fg_running)) ! FG) = FINISHED \<and>
   pgid (jobs (final (monitorjob fg_running)) ! FG) = 100 \<and>
   command (jobs (final (monitorjob fg_running)) ! FG) = Some ''ls'' \<and>
   result (bindO (eval [T_STR ''ls'', T_NULL] 1 (shell0\<lparr>future := [[(100, 0)]]\<rparr>))
             (\<lambda>_ s1. watchjobs (Only FINISHED) s1)) = Some () \<and>
   pgid (jobs (final (bindO (eval [T_STR ''ls'', T_NULL] 1 (shell0\<lparr>future := [[(100, 0)]]\<rparr>))
             (\<lambda>_ s1. watchjobs (Only FINISHED) s1))) ! FG) = 100"
  by code_simp

text \<open>
  What the finished job left in slot 0 does later: with the background job
  \<^verbatim>\<open>sleep 5\<close> in slot 1, the command \<^verbatim>\<open>fg 1\<close> fails the assertion of \<^verbatim>\<open>movejob\<close> that slot 0
  is free.
\<close>

lemma fg_after_foreground_job_aborts:
  "halted (bindO (eval [T_STR ''ls'', T_NULL] 1 (shell0\<lparr>future := [[(100, 0)]]\<rparr>)) (\<lambda>_ s1.
           bindO (eval [T_STR ''sleep'', T_STR ''5'', T_BGJOB, T_NULL] 3 s1) (\<lambda>_ s2.
           eval [T_STR ''fg'', T_STR ''1'', T_NULL] 2 s2))) = Some AssertFail"
  by code_simp

section \<open>Jobs that fg, bg and kill do not find\<close>

lemma resumejob_select_le: "resumejob_select n js \<le> n"
  by (induction n) auto

lemma resumejob_rejects:
  assumes "0 < njobmax s"
    and "if j < 0 then \<forall>k<njobmax s. state (jobs s ! k) = FINISHED
         else int (njobmax s) \<le> j \<or> state (jobs s ! nat j) = FINISHED"
  shows "resumejob j bg s = Return False s"
proof (cases "j < 0")
  case True
  have "resumejob_select (njobmax s - 1) (jobs s) < njobmax s"
    using resumejob_select_le [of "njobmax s - 1" "jobs s"] assms(1) by simp
  with assms True show ?thesis by (simp add: resumejob_def)
next
  case False
  with assms show ?thesis by (auto simp: resumejob_def Let_def)
qed


text \<open>
  C5, as the code has it. \<open>a\<close> is the argument of the built-in (\<open>None\<close> when there is
  none) and \<open>j\<close> the job number read from it, the \<^verbatim>\<open>int\<close> that \<^verbatim>\<open>atoi\<close> returns, \<open>- 1\<close> without
  an argument. When \<open>j\<close> names
  an unknown slot or a slot whose state is FINISHED, or when \<open>j\<close> is negative (the
  default selection) and every slot is FINISHED, then \<^verbatim>\<open>fg\<close> and \<^verbatim>\<open>bg\<close> print their
  "job not found" message, send no signal, leave the job table as it is, and return the
  exit code 0.
\<close>

theorem fg_bg_job_not_found:
  assumes "argv0 argv = Some a"
    and "j = (case a of Some str \<Rightarrow> atoi str | None \<Rightarrow> - 1)"
    and "0 < njobmax s"
    and "if j < 0 then \<forall>k<njobmax s. state (jobs s ! k) = FINISHED
         else int (njobmax s) \<le> j \<or> state (jobs s ! nat j) = FINISHED"
  shows "do_fg argv s =
           Return 0 (call Sigprocmask_setmask
             (msg (''fg: job not found: '' @ show_str a @ [CHR 0x0A])
               (call Sigprocmask_block s))) \<and>
         do_bg argv s =
           Return 0 (call Sigprocmask_setmask
             (msg (''bg: job not found: '' @ show_str a @ [CHR 0x0A])
               (call Sigprocmask_block s)))"
proof -
  have "resumejob j bg (call Sigprocmask_block s) = Return False (call Sigprocmask_block s)" for bg
    using assms(3,4) by (intro resumejob_rejects) simp_all
  with assms(1,2) show ?thesis
    by (simp add: do_fg_def do_bg_def bindO_def)
qed

theorem fg_bg_job_not_found_witness:
  "do_fg [T_STR ''7'', T_NULL] shell0 =
     Return 0 (call Sigprocmask_setmask
       (msg (''fg: job not found: 7'' @ [CHR 0x0A]) (call Sigprocmask_block shell0))) \<and>
   do_bg [T_NULL] shell0 =
     Return 0 (call Sigprocmask_setmask
       (msg (''bg: job not found: (null)'' @ [CHR 0x0A]) (call Sigprocmask_block shell0)))"
  using fg_bg_job_not_found [of "[T_STR ''7'', T_NULL]" "Some ''7''" 7 shell0]
    fg_bg_job_not_found [of "[T_NULL]" None "- 1" shell0]
  by (simp add: atoi_def int_of_long_def strtol_def isspace_def digit_val_def njobmax_def shell0_def
      show_str_def)

text \<open>
  C5 as the claim states it fails: \<^verbatim>\<open>fg 7\<close> in \<open>shell0\<close>, where no slot 7 exists, prints the
  message and returns 0, not a nonzero exit code.
\<close>

theorem fg_unknown_job_returns_0:
  "result (do_fg [T_STR ''7'', T_NULL] shell0) = Some 0 \<and>
   out (final (do_fg [T_STR ''7'', T_NULL] shell0)) = ''fg: job not found: 7'' @ [CHR 0x0A]"
  by code_simp

text \<open>
  The job number is the \<^verbatim>\<open>int\<close> of \<^verbatim>\<open>atoi\<close>, not the number as written: \<^verbatim>\<open>4294967297\<close>, which is
  \<open>2 ^ 32 + 1\<close>, names job 1, and \<^verbatim>\<open>bg 4294967297\<close> continues the running job 1 with no
  message.
\<close>

lemma bg_job_number_wraps:
  "atoi ''4294967297'' = 1 \<and> atoi ''2147483648'' = - 2147483648 \<and>
   result (do_bg [T_STR ''4294967297'', T_NULL] bg_running) = Some 0 \<and>
   out (final (do_bg [T_STR ''4294967297'', T_NULL] bg_running)) = [] \<and>
   calls (final (do_bg [T_STR ''4294967297'', T_NULL] bg_running)) =
     [Sigprocmask_block, Kill (- 100) SIGCONT, Sigprocmask_setmask]"
  by code_simp

section \<open>A slot freed by deljob\<close>










section \<open>The jobs built-in, twice\<close>

lemma watchjob_listing:
  assumes "j < njobmax s" "state (jobs s ! j) \<noteq> FINISHED"
  shows "\<exists>d. \<forall>t. jobs t = jobs s \<longrightarrow> watchjob ALL_JOBS j t = Return () (t\<lparr>out := out t @ d\<rparr>)"
proof (cases "state (jobs s ! j)")
  case FINISHED
  with assms show ?thesis by simp
next
  case RUNNING
  then show ?thesis
    by (intro exI [of _ "''['' @ show_int (int j) @ ''] '' @
          ''running ('' @ show_str (command (jobs s ! j)) @ '')'' @ [CHR 0x0A]"])
      (simp add: watchjob_def msg_def)
next
  case STOPPED
  then show ?thesis
    by (intro exI [of _ "''['' @ show_int (int j) @ ''] '' @
          ''stopped ('' @ show_str (command (jobs s ! j)) @ '')'' @ [CHR 0x0A]"])
      (simp add: watchjob_def msg_def)
qed

text \<open>
  With no finished job from slot \<open>j\<close> on, the loop of \<^verbatim>\<open>watchjobs\<close> only prints, and what
  it prints is a function of the job table.
\<close>

lemma watchjobs_loop_listing:
  assumes "\<forall>k. j \<le> k \<and> k < njobmax s \<and> pgid (jobs s ! k) \<noteq> 0 \<longrightarrow> state (jobs s ! k) \<noteq> FINISHED"
  shows "\<exists>d. \<forall>t. jobs t = jobs s \<longrightarrow>
           watchjobs_loop ALL_JOBS j t = Return () (t\<lparr>out := out t @ d\<rparr>)"
  using assms
proof (induction "njobmax s - j" arbitrary: j)
  case 0
  then have "watchjobs_loop ALL_JOBS j t = Return () (t\<lparr>out := out t @ []\<rparr>)"
    if "jobs t = jobs s" for t
    using that by (subst watchjobs_loop.simps) (simp add: njobmax_def)
  then show ?case by blast
next
  case (Suc n)
  then have j: "j < njobmax s" and n: "n = njobmax s - (j + 1)" by simp_all
  from Suc.prems have "\<forall>k. j + 1 \<le> k \<and> k < njobmax s \<and> pgid (jobs s ! k) \<noteq> 0 \<longrightarrow>
      state (jobs s ! k) \<noteq> FINISHED" by simp
  from Suc.hyps(1) [OF n this] obtain d where
    rest: "\<And>t. jobs t = jobs s \<Longrightarrow>
             watchjobs_loop ALL_JOBS (j + 1) t = Return () (t\<lparr>out := out t @ d\<rparr>)"
    by blast
  show ?case
  proof (cases "pgid (jobs s ! j) = 0")
    case True
    then have "watchjobs_loop ALL_JOBS j t = Return () (t\<lparr>out := out t @ d\<rparr>)"
      if "jobs t = jobs s" for t
      using that j rest [OF that] by (subst watchjobs_loop.simps) (simp add: njobmax_def)
    then show ?thesis by blast
  next
    case False
    with Suc.prems j have "state (jobs s ! j) \<noteq> FINISHED" by simp
    from watchjob_listing [OF j this] obtain l where
      line: "\<And>t. jobs t = jobs s \<Longrightarrow> watchjob ALL_JOBS j t = Return () (t\<lparr>out := out t @ l\<rparr>)"
      by blast
    have "watchjobs_loop ALL_JOBS j t = Return () (t\<lparr>out := out t @ (l @ d)\<rparr>)"
      if "jobs t = jobs s" for t
    proof -
      have "jobs (t\<lparr>out := out t @ l\<rparr>) = jobs s" using that by simp
      from rest [OF this] line [OF that] False j that show ?thesis
        by (subst watchjobs_loop.simps) (simp add: njobmax_def bindO_def)
    qed
    then show ?thesis by blast
  qed
qed

text \<open>
  C9, as the code has it. When no occupied background slot is FINISHED at the first
  call, two calls of \<^verbatim>\<open>jobs\<close> in a row, with no signal handled in between, print the
  same text \<open>d\<close> and leave the job table as it is.
\<close>

theorem jobs_twice_same_output:
  assumes "\<forall>k. BG \<le> k \<and> k < njobmax s \<and> pgid (jobs s ! k) \<noteq> 0 \<longrightarrow>
             state (jobs s ! k) \<noteq> FINISHED"
  shows "\<exists>d s1 s2. do_jobs argv s = Return 0 s1 \<and> out s1 = out s @ d \<and> jobs s1 = jobs s \<and>
           do_jobs argv' s1 = Return 0 s2 \<and> out s2 = out s1 @ d \<and> jobs s2 = jobs s"
proof -
  from watchjobs_loop_listing [OF assms] obtain d where
    d: "\<And>t. jobs t = jobs s \<Longrightarrow>
          watchjobs_loop ALL_JOBS BG t = Return () (t\<lparr>out := out t @ d\<rparr>)"
    by blast
  let ?s1 = "s\<lparr>out := out s @ d\<rparr>"
  let ?s2 = "?s1\<lparr>out := out ?s1 @ d\<rparr>"
  have "do_jobs argv s = Return 0 ?s1"
    using d [of s] by (simp add: do_jobs_def watchjobs_def bindO_def)
  moreover have "do_jobs argv' ?s1 = Return 0 ?s2"
    using d [of ?s1] by (simp add: do_jobs_def watchjobs_def bindO_def)
  ultimately show ?thesis
    by (intro exI [of _ d] exI [of _ ?s1] exI [of _ ?s2]) simp
qed

theorem jobs_twice_same_output_witness:
  "\<exists>d s1 s2. do_jobs [T_NULL] bg_running = Return 0 s1 \<and> out s1 = out bg_running @ d \<and>
      jobs s1 = jobs bg_running \<and>
      do_jobs [T_NULL] s1 = Return 0 s2 \<and> out s2 = out s1 @ d \<and> jobs s2 = jobs bg_running"
proof -
  have h: "\<forall>k. BG \<le> k \<and> k < njobmax bg_running \<and> pgid (jobs bg_running ! k) \<noteq> 0 \<longrightarrow>
      state (jobs bg_running ! k) \<noteq> FINISHED"
    by (auto simp: bg_running_def shell0_def njobmax_def BG_def nth_Cons')
  from jobs_twice_same_output [OF h, of "[T_NULL]" "[T_NULL]"] show ?thesis .
qed

text \<open>What \<^verbatim>\<open>jobs\<close> prints in \<open>bg_running\<close>, each time.\<close>

lemma jobs_running_listing:
  "out (final (do_jobs [T_NULL] bg_running)) = ''[1] running (sleep 5)'' @ [CHR 0x0A] \<and>
   out (final (do_jobs [T_NULL] (final (do_jobs [T_NULL] bg_running)))) =
     ''[1] running (sleep 5)'' @ [CHR 0x0A] @ ''[1] running (sleep 5)'' @ [CHR 0x0A]"
  by code_simp

text \<open>
  C9 as the claim states it fails: in \<open>bg_finished\<close> the first \<^verbatim>\<open>jobs\<close> prints the line of
  the finished job 1 and deletes the job, and the second \<^verbatim>\<open>jobs\<close>, with no signal in
  between, prints nothing.
\<close>

theorem jobs_twice_differs:
  "result (do_jobs [T_NULL] bg_finished) = Some 0 \<and>
   out (final (do_jobs [T_NULL] bg_finished)) =
     out bg_finished @ ''[1] exited, status=0 (sleep 5)'' @ [CHR 0x0A] \<and>
   result (do_jobs [T_NULL] (final (do_jobs [T_NULL] bg_finished))) = Some 0 \<and>
   out (final (do_jobs [T_NULL] (final (do_jobs [T_NULL] bg_finished)))) =
     out (final (do_jobs [T_NULL] bg_finished)) @ []"
  by code_simp

section \<open>What the functions log and print\<close>

lemma string_p_not_redir: "string_p t \<Longrightarrow> t \<noteq> T_INPUT \<and> t \<noteq> T_OUTPUT \<and> t \<noteq> T_NULL"
  by (cases t) simp_all

text \<open>
  \<open>same_io\<close>: neither the log of calls nor the output has changed. The functions on the
  job table and the loop of \<^verbatim>\<open>monitorjob\<close> change neither.
\<close>

definition same_io :: "shell \<Rightarrow> shell \<Rightarrow> bool" where
  "same_io s s' \<longleftrightarrow> calls s' = calls s \<and> out s' = out s"

lemma same_io_refl [simp]: "same_io s s"
  by (simp add: same_io_def)

lemma same_io_trans: "same_io s s1 \<Longrightarrow> same_io s1 s2 \<Longrightarrow> same_io s s2"
  by (simp add: same_io_def)

lemma final_bindO:
  "final (bindO m f) = (case m of Return a s \<Rightarrow> final (f a s) | Halt r s \<Rightarrow> s)"
  by (simp add: bindO_def split: outcome.splits)

lemma same_io_bindO:
  assumes "same_io s (final m)" and "\<And>a s1. m = Return a s1 \<Longrightarrow> same_io s1 (final (f a s1))"
  shows "same_io s (final (bindO m f))"
  using assms by (cases m) (auto simp: bindO_def intro: same_io_trans)

lemma same_io_sigchld_handler: "same_io s (sigchld_handler s)"
  by (simp add: same_io_def sigchld_handler_def split: prod.splits)

lemma same_io_Sigsuspend: "same_io s (final (Sigsuspend s))"
  using same_io_sigchld_handler [of "s\<lparr>pending := pending s @ b, future := r\<rparr>" for b r]
  by (auto simp: Sigsuspend_def same_io_def split: list.splits)

lemma same_io_addjob: "same_io s (final (addjob p bg s))"
  by (auto simp: addjob_def allocjob_def same_io_def split: option.splits)

lemma same_io_movejob: "same_io s (final (movejob from to s))"
  by (simp add: movejob_def same_io_def)

lemma same_io_deljob: "same_io s (final (deljob j s))"
  by (simp add: deljob_def same_io_def)

lemma same_io_addproc: "same_io s (final (addproc j p argv s))"
  by (simp add: addproc_def same_io_def Let_def split: option.splits)

lemma same_io_jobcmd: "same_io s (final (jobcmd j s))"
  by (simp add: jobcmd_def same_io_def)

lemma same_io_monitorjob_loop: "same_io s (final (monitorjob_loop s))"
proof (induction s rule: monitorjob_loop.induct)
  case (1 s)
  show ?case
  proof (subst monitorjob_loop.simps, rule same_io_bindO [OF same_io_Sigsuspend])
    fix a s1 assume susp: "Sigsuspend s = Return a s1"
    show "same_io s1 (final (case state (jobs s1 ! FG) of
            FINISHED \<Rightarrow> if proc (jobs s1 ! FG) = [] then Halt AssertFail s1
                        else Return (pexitcode (last (proc (jobs s1 ! FG)))) s1
          | RUNNING \<Rightarrow> monitorjob_loop s1
          | STOPPED \<Rightarrow> bindO (addjob 0 True s1) (\<lambda>bg s2.
                         bindO (movejob FG bg s2) (\<lambda>_ s3. Return (- 1) s3))))"
    proof (cases "state (jobs s1 ! FG)")
      case FINISHED
      then show ?thesis by simp
    next
      case RUNNING
      with "1.IH" [OF susp] show ?thesis by simp
    next
      case STOPPED
      then show ?thesis
        by (auto intro!: same_io_bindO same_io_addjob same_io_movejob)
    qed
  qed
qed

text \<open>
  \<open>grows\<close>: the log has grown, and by no \<^verbatim>\<open>fork\<close> and no \<^verbatim>\<open>setpgid\<close>. This holds of
  \<^verbatim>\<open>monitorjob\<close> and of every built-in command.
\<close>

fun is_launch :: "call \<Rightarrow> bool" where
  "is_launch (Setpgid p g) = True"
| "is_launch (Fork p prog) = True"
| "is_launch c = False"

definition grows :: "shell \<Rightarrow> shell \<Rightarrow> bool" where
  "grows s s' \<longleftrightarrow> (\<exists>cs. calls s' = calls s @ cs \<and> list_all (\<lambda>c. \<not> is_launch c) cs)"

lemma grows_refl [simp]: "grows s s"
  by (simp add: grows_def)

lemma grows_trans: "grows s s1 \<Longrightarrow> grows s1 s2 \<Longrightarrow> grows s s2"
  by (auto simp: grows_def)

lemma grows_same_io: "same_io s s' \<Longrightarrow> grows s s'"
  by (simp add: grows_def same_io_def)

lemma grows_call: "\<not> is_launch c \<Longrightarrow> grows s (call c s)"
  by (simp add: grows_def call_def)

lemma grows_msg: "grows s (msg txt s)"
  by (simp add: grows_def msg_def)

lemma grows_bindO:
  assumes "grows s (final m)" and "\<And>a s1. m = Return a s1 \<Longrightarrow> grows s1 (final (f a s1))"
  shows "grows s (final (bindO m f))"
  using assms by (cases m) (auto simp: bindO_def intro: grows_trans)

lemma grows_monitorjob: "grows s (final (monitorjob s))"
  unfolding monitorjob_def
  by (auto intro!: grows_bindO grows_trans [OF grows_call grows_same_io [OF same_io_monitorjob_loop]]
      grows_call)

lemma grows_resumejob: "grows s (final (resumejob j bg s))"
  unfolding resumejob_def Let_def
  by (auto intro!: grows_bindO grows_monitorjob
      grows_trans [OF grows_call grows_same_io [OF same_io_movejob]] grows_call)

lemma grows_killjob: "grows s (final (killjob j s))"
  by (auto simp: killjob_def intro!: grows_call)

lemma grows_watchjob: "grows s (final (watchjob which j s))"
  unfolding watchjob_def Let_def
  by (auto split: jstate.splits option.splits
      intro!: grows_msg grows_trans [OF grows_msg grows_msg]
        grows_trans [OF grows_trans [OF grows_msg grows_msg] grows_same_io [OF same_io_deljob]])

lemma grows_watchjobs_loop: "grows s (final (watchjobs_loop which j s))"
proof (induction which j s rule: watchjobs_loop.induct)
  case (1 which j s)
  show ?case
    using "1.IH" by (subst watchjobs_loop.simps) (auto intro!: grows_bindO grows_watchjob)
qed

lemma grows_builtin_command: "grows s (final (builtin_command argv s))"
proof -
  have fg: "grows s (final (do_fg argv' s))" for argv'
    unfolding do_fg_def
    by (auto split: option.splits
        intro!: grows_bindO grows_trans [OF grows_call grows_resumejob]
          grows_call grows_trans [OF grows_msg grows_call])
  have bg: "grows s (final (do_bg argv' s))" for argv'
    unfolding do_bg_def
    by (auto split: option.splits
        intro!: grows_bindO grows_trans [OF grows_call grows_resumejob]
          grows_call grows_trans [OF grows_msg grows_call])
  have kill: "grows s (final (do_kill argv' s))" for argv'
    unfolding do_kill_def
    by (auto split: option.splits
        intro!: grows_bindO grows_trans [OF grows_call grows_killjob]
          grows_call grows_trans [OF grows_msg grows_call])
  have jobs: "grows s (final (do_jobs argv' s))" for argv'
    unfolding do_jobs_def watchjobs_def
    by (auto intro!: grows_bindO grows_watchjobs_loop)
  have cd: "grows s (final (do_chdir argv' s))" for argv'
    unfolding do_chdir_def Let_def
    by (auto split: option.splits intro!: grows_call grows_trans [OF grows_call grows_msg])
  have quit: "grows s (final (do_quit argv' s))" for argv'
    by (simp add: do_quit_def)
  show ?thesis
    unfolding builtin_command_def
    by (auto split: option.splits simp: fg bg kill jobs cd quit)
qed


text \<open>
  \<open>redir_frame\<close>: what \<^verbatim>\<open>do_redir\<close> leaves alone. It prints nothing, launches nothing,
  and the files that can be opened and the next pid stay the same.
\<close>

definition redir_frame :: "shell \<Rightarrow> shell \<Rightarrow> bool" where
  "redir_frame s s' \<longleftrightarrow>
     grows s s' \<and> out s' = out s \<and> openable s' = openable s \<and> next_pid s' = next_pid s"

lemma redir_frame_refl [simp]: "redir_frame s s"
  by (simp add: redir_frame_def)

lemma redir_frame_trans: "redir_frame s s1 \<Longrightarrow> redir_frame s1 s2 \<Longrightarrow> redir_frame s s2"
  by (auto simp: redir_frame_def intro: grows_trans)

lemma redir_frame_open:
  "os_open filename rd (if fd \<noteq> - 1 then call (Close fd) s else s) = (fd', s1) \<Longrightarrow>
     redir_frame s s1"
  by (auto simp: os_open_def redir_frame_def grows_def split: if_splits)

lemma do_redir_loop_frame:
  "redir_frame s (final (do_redir_loop token ntokens i n inp outp s))"
proof (induction "card (redir_todo token ntokens i)"
    arbitrary: token i n inp outp s rule: less_induct)
  case less
  show ?case
  proof (cases "ntokens \<le> length token \<and> i < ntokens \<and> token ! i \<noteq> T_NULL")
    case False
    then show ?thesis by (subst do_redir_loop.simps) auto
  next
    case True
    then have len: "ntokens \<le> length token" and i: "i < ntokens" "token ! i \<noteq> T_NULL"
      by simp_all
    show ?thesis
    proof (cases "token ! i = T_INPUT \<or> token ! i = T_OUTPUT")
      case False
      have "card (redir_todo token ntokens (i + 1)) < card (redir_todo token ntokens i)"
        using i by (rule redir_todo_skip)
      from less.hyps [OF this] False len i show ?thesis
        by (subst do_redir_loop.simps) simp
    next
      case redir: True
      show ?thesis
      proof (cases "i + 1 \<noteq> ntokens \<and> string_p (token ! (i + 1))")
        case False
        with len i redir show ?thesis by (subst do_redir_loop.simps) auto
      next
        case ok: True
        with i have "i + 2 \<le> ntokens" by simp
        with len i have
          "card (redir_todo (compact token ntokens i) ntokens i) < card (redir_todo token ntokens i)"
          by (intro redir_todo_compact)
        from less.hyps [OF this]
        have rec: "redir_frame s1 (final (do_redir_loop (compact token ntokens i) ntokens i n
                      inp' outp' s1))" for inp' outp' s1 .
        show ?thesis
          using len i redir ok
          by (subst do_redir_loop.simps)
            (auto split: prod.splits intro: redir_frame_trans [OF redir_frame_open rec])
      qed
    qed
  qed
qed



lemma do_redir_loop_Return_frame:
  "do_redir_loop token ntokens i n inp outp s = Return x s1 \<Longrightarrow> redir_frame s s1"
  using do_redir_loop_frame [of s token ntokens i n inp outp] by simp





section \<open>Launching a command that is no built-in\<close>

lemma builtin_command_negative:
  assumes "builtin_command argv s = Return r s'" "r < 0"
  shows "s' = s \<and> r = - 1"
proof -
  have "bindO m (\<lambda>a s1. Return 0 (g a s1)) \<noteq> Return r s'" for m :: "'a outcome" and g
    using assms(2) by (cases m) (auto simp: bindO_def)
  note no = this
  from assms show ?thesis
    unfolding builtin_command_def do_quit_def do_chdir_def do_jobs_def do_fg_def do_bg_def
      do_kill_def Let_def
    by (auto split: option.splits if_splits simp: no)
qed

lemma out_bindO_quiet:
  assumes "\<And>a s1. out (final (f a s1)) = out s1"
  shows "out (final (bindO m f)) = out (final m)"
  using assms by (cases m) (simp_all add: bindO_def)

lemma out_same_io: "same_io s s' \<Longrightarrow> out s' = out s"
  by (simp add: same_io_def)

lemma out_monitorjob: "out (final (monitorjob s)) = out s"
  by (simp add: monitorjob_def out_bindO_quiet out_same_io [OF same_io_monitorjob_loop])

text \<open>
  What \<^verbatim>\<open>do_job\<close> does from the \<^verbatim>\<open>fork\<close> on, for a command that is no built-in: the
  calls, and what is printed when the job is a foreground job.
\<close>

lemma do_job_launch:
  assumes "do_redir token ntokens (- 1) (- 1) s = Return (token1, n, inp, outp) s1"
    and "builtin_command token1 s1 = Return r s2" "r < 0"
  shows "\<exists>cs. calls (final (do_job token ntokens bg s)) =
           calls s1 @ [Sigprocmask_block, Fork (next_pid s1) (do_job_child inp outp token1),
                       Setpgid (next_pid s1) (next_pid s1)] @ cs \<and>
           list_all (\<lambda>c. \<not> is_launch c) cs"
    and "\<not> bg \<Longrightarrow> out (final (do_job token ntokens bg s)) = out s"
proof -
  from builtin_command_negative [OF assms(2,3)] have s2: "s2 = s1" by simp
  let ?p = "next_pid s1"
  let ?s3 = "call (Setpgid ?p ?p)
      ((call (Fork ?p (do_job_child inp outp token1)) (call Sigprocmask_block s1))
         \<lparr>next_pid := ?p + 1\<rparr>)"
  let ?tail = "\<lambda>job s5.
      (let s6 = (if outp \<noteq> - 1 then call (Close outp) s5 else s5);
           s7 = (if inp \<noteq> - 1 then call (Close inp) s6 else s6)
       in if \<not> bg then
            bindO (monitorjob s7) (\<lambda>e s8. Return e (call Sigprocmask_setmask s8))
          else
            bindO (jobcmd job s7) (\<lambda>cmd s8.
              Return r (call Sigprocmask_setmask
                (msg (''['' @ show_int (int job) @ ''] running '' @ [CHR 0x27] @
                      show_str cmd @ [CHR 0x27, CHR 0x0A]) s8))))"
  let ?rest = "bindO (addjob ?p bg ?s3) (\<lambda>job s4.
               bindO (addproc job ?p token1 s4) (\<lambda>_ s5. ?tail job s5))"
  have eq: "do_job token ntokens bg s = ?rest"
    using assms s2 by (simp add: do_job_def bindO_def os_fork_def)
  have tail_grows: "grows s5 (final (?tail job s5))" for job s5
    unfolding Let_def
    by (auto intro!: grows_bindO grows_call grows_monitorjob grows_same_io [OF same_io_jobcmd]
        grows_trans [OF grows_call grows_call] grows_trans [OF grows_msg grows_call]
        grows_trans [OF grows_call grows_monitorjob]
        grows_trans [OF grows_trans [OF grows_call grows_call] grows_monitorjob]
        grows_trans [OF grows_call grows_same_io [OF same_io_jobcmd]]
        grows_trans [OF grows_trans [OF grows_call grows_call] grows_same_io [OF same_io_jobcmd]])
  have "grows ?s3 (final ?rest)"
    by (intro grows_bindO grows_same_io [OF same_io_addjob]
        grows_same_io [OF same_io_addproc] tail_grows)
  then obtain cs where "calls (final ?rest) = calls ?s3 @ cs" "list_all (\<lambda>c. \<not> is_launch c) cs"
    by (auto simp: grows_def)
  then show "\<exists>cs. calls (final (do_job token ntokens bg s)) =
           calls s1 @ [Sigprocmask_block, Fork ?p (do_job_child inp outp token1),
                       Setpgid ?p ?p] @ cs \<and>
           list_all (\<lambda>c. \<not> is_launch c) cs"
    unfolding eq by (simp add: call_def)
  assume fg: "\<not> bg"
  have tail_quiet: "out (final (?tail job s5)) = out s5" for job s5
    using fg by (simp add: Let_def out_bindO_quiet out_monitorjob)
  have "out (final ?rest) = out ?s3"
    by (simp only: out_bindO_quiet tail_quiet out_same_io [OF same_io_addjob]
        out_same_io [OF same_io_addproc])
  moreover have "out s1 = out s"
    using do_redir_loop_Return_frame [OF assms(1) [unfolded do_redir_def]]
    by (simp add: redir_frame_def)
  ultimately show "out (final (do_job token ntokens bg s)) = out s"
    unfolding eq by simp
qed


section \<open>A redirection operator with no file name\<close>

text \<open>
  The scan reaches the operator at \<open>k\<close>, or fails before: a redirection taken out before
  \<open>k\<close> moves the operator two places down together with what follows it.
\<close>

lemma do_redir_loop_malformed:
  assumes "ntokens \<le> length token" "i \<le> k" "k < ntokens"
    and "token ! k = T_INPUT \<or> token ! k = T_OUTPUT"
    and "\<forall>j. i \<le> j \<and> j \<le> k \<longrightarrow> token ! j \<noteq> T_NULL"
    and "k + 1 = ntokens \<or> \<not> string_p (token ! (k + 1))"
  shows "\<exists>s'. do_redir_loop token ntokens i n inp outp s = Halt AssertFail s'"
  using assms
proof (induction "card (redir_todo token ntokens i)"
    arbitrary: token i n inp outp s k rule: less_induct)
  case less
  from less.prems have i: "i < ntokens" "token ! i \<noteq> T_NULL" by auto
  show ?case
  proof (cases "token ! i = T_INPUT \<or> token ! i = T_OUTPUT")
    case redir: True
    show ?thesis
    proof (cases "i + 1 \<noteq> ntokens \<and> string_p (token ! (i + 1))")
      case False
      with less.prems(1) i redir show ?thesis
        by (subst do_redir_loop.simps) auto
    next
      case ok: True
      let ?token = "compact token ntokens i"
      from ok less.prems(6) have "k \<noteq> i" by auto
      moreover from ok less.prems(4) have "k \<noteq> i + 1"
        using string_p_not_redir by blast
      ultimately have ik: "i + 2 \<le> k" using less.prems(2) by simp
      define k' where "k' = k - 2"
      from ik have k: "k = k' + 2" and ik': "i \<le> k'" by (simp_all add: k'_def)
      from ok i have i2: "i + 2 \<le> ntokens" by simp
      have nth: "?token ! j =
          (if j < i then token ! j else if j + 2 < ntokens then token ! (j + 2)
           else if j < ntokens then T_NULL else token ! j)" if "j < ntokens" for j
        using nth_compact [OF less.prems(1) i2, of j] that less.prems(1) by simp
      have smaller: "card (redir_todo ?token ntokens i) < card (redir_todo token ntokens i)"
        using less.prems(1) i2 i(2) by (rule redir_todo_compact)
      have p1: "ntokens \<le> length ?token" using less.prems(1) by (simp add: length_compact)
      have p3: "k' < ntokens" using k less.prems(3) by simp
      have p4: "?token ! k' = T_INPUT \<or> ?token ! k' = T_OUTPUT"
        using nth [OF p3] ik' k less.prems(3,4) by simp
      have p5: "\<forall>j. i \<le> j \<and> j \<le> k' \<longrightarrow> ?token ! j \<noteq> T_NULL"
      proof (intro allI impI)
        fix j assume j: "i \<le> j \<and> j \<le> k'"
        with k less.prems(3) have "j + 2 < ntokens" "i \<le> j + 2" "j + 2 \<le> k" by simp_all
        with less.prems(5) nth [of j] j show "?token ! j \<noteq> T_NULL" by simp
      qed
      have p6: "k' + 1 = ntokens \<or> \<not> string_p (?token ! (k' + 1))"
      proof (cases "k + 1 = ntokens")
        case True
        with k ik' have "?token ! (k' + 1) = T_NULL" using nth [of "k' + 1"] by simp
        then show ?thesis by simp
      next
        case False
        with less.prems(3) k ik' have "?token ! (k' + 1) = token ! (k + 1)"
          using nth [of "k' + 1"] by simp
        with False less.prems(6) show ?thesis by simp
      qed
      have rec: "\<exists>s'. do_redir_loop ?token ntokens i n inp' outp' s1 = Halt AssertFail s'"
        for inp' outp' s1
        using less.hyps [OF smaller p1 ik' p3 p4 p5 p6] .
      show ?thesis
        using less.prems(1) i redir ok rec
        by (subst do_redir_loop.simps) (auto split: prod.splits)
    qed
  next
    case skip: False
    with less.prems(4) have "k \<noteq> i" by auto
    with less.prems(2) have k: "i + 1 \<le> k" by simp
    have smaller: "card (redir_todo token ntokens (i + 1)) < card (redir_todo token ntokens i)"
      using i by (rule redir_todo_skip)
    from less.prems(5) have p5: "\<forall>j. i + 1 \<le> j \<and> j \<le> k \<longrightarrow> token ! j \<noteq> T_NULL" by simp
    have rec: "\<exists>s'. do_redir_loop token ntokens (i + 1) (n + 1) inp outp s = Halt AssertFail s'"
      using less.hyps [OF smaller less.prems(1) k less.prems(3,4) p5 less.prems(6)] .
    show ?thesis
      using less.prems(1) i skip rec by (subst do_redir_loop.simps) auto
  qed
qed

lemma halted_bindO_Halt: "m = Halt r s \<Longrightarrow> halted (bindO m f) = Some r"
  by (simp add: bindO_def)

text \<open>
  C4, as the code has it. Let \<open>k\<close> be the place of a redirection operator, with no
  \<^verbatim>\<open>NULL\<close> up to it, that is the last token or is followed by a token that is no literal
  string. Then the assertion of \<^verbatim>\<open>do_redir\<close> fails: the shell process itself aborts, in
  \<^verbatim>\<open>do_job\<close> as in \<^verbatim>\<open>do_stage\<close>, and no prompt follows. The shell has printed nothing
  with \<^verbatim>\<open>msg\<close>: the message is that of the failed assertion.
\<close>

theorem do_redir_malformed_aborts:
  assumes "ntokens \<le> length token"
    and "k < ntokens"
    and "token ! k = T_INPUT \<or> token ! k = T_OUTPUT"
    and "k + 1 = ntokens \<or> \<not> string_p (token ! (k + 1))"
    and "\<forall>j\<le>k. token ! j \<noteq> T_NULL"
  shows "halted (do_redir token ntokens input output s) = Some AssertFail \<and>
         halted (do_job token ntokens bg s) = Some AssertFail \<and>
         halted (do_stage pgid' input output token ntokens s) = Some AssertFail \<and>
         out (final (do_job token ntokens bg s)) = out s \<and>
         out (final (do_stage pgid' input output token ntokens s)) = out s"
proof -
  have "\<exists>s'. do_redir token ntokens inp outp s = Halt AssertFail s'" for inp outp
    unfolding do_redir_def
    using assms by (intro do_redir_loop_malformed [where k = k]) simp_all
  then obtain s1 s2 where
    halt: "do_redir token ntokens input output s = Halt AssertFail s1"
      "do_redir token ntokens (- 1) (- 1) s = Halt AssertFail s2"
    by blast
  have "out (final (do_redir token ntokens inp outp s)) = out s" for inp outp
    using do_redir_loop_frame [of s token ntokens 0 0 inp outp]
    by (simp add: do_redir_def redir_frame_def)
  from this [of "input" "output"] this [of "- 1" "- 1"] halt show ?thesis
    by (simp add: do_job_def do_stage_def bindO_def)
qed

theorem do_redir_malformed_aborts_witness:
  "halted (do_redir [T_STR ''cat'', T_OUTPUT, T_NULL] 2 (- 1) (- 1) shell0) = Some AssertFail \<and>
   halted (do_job [T_STR ''cat'', T_OUTPUT, T_NULL] 2 False shell0) = Some AssertFail \<and>
   halted (do_stage 0 (- 1) (- 1) [T_STR ''cat'', T_OUTPUT, T_NULL] 2 shell0) = Some AssertFail \<and>
   out (final (do_job [T_STR ''cat'', T_OUTPUT, T_NULL] 2 False shell0)) = out shell0 \<and>
   out (final (do_stage 0 (- 1) (- 1) [T_STR ''cat'', T_OUTPUT, T_NULL] 2 shell0)) = out shell0"
  using do_redir_malformed_aborts [of 2 "[T_STR ''cat'', T_OUTPUT, T_NULL]" 1 "- 1" "- 1" shell0 False 0]
  by (simp add: nth_Cons' All_less_Suc2 le_Suc_eq)

text \<open>
  C4 as the claim states it fails: the command \<^verbatim>\<open>cat >\<close> does not only abort the command
  with a message of the shell; \<^verbatim>\<open>eval\<close> does not return, the shell is aborted by the
  failed assertion, and \<^verbatim>\<open>msg\<close> has printed nothing.
\<close>

theorem malformed_redirection_aborts_shell:
  "halted (eval [T_STR ''cat'', T_OUTPUT, T_NULL] 2 shell0) = Some AssertFail \<and>
   result (eval [T_STR ''cat'', T_OUTPUT, T_NULL] 2 shell0) = None \<and>
   out (final (eval [T_STR ''cat'', T_OUTPUT, T_NULL] 2 shell0)) = []"
  by code_simp


section \<open>A redirection whose file cannot be opened\<close>



text \<open>
  The run of \<^verbatim>\<open>cat < f < nosuch\<close> in full: the child runs \<^verbatim>\<open>cat\<close> with no \<^verbatim>\<open>dup2\<close>, its input
  is not redirected.
\<close>

lemma do_job_cat_f_nosuch:
  "result (do_redir cat_f_nosuch 5 (- 1) (- 1) ls_exits) =
     Some ([T_STR ''cat'', T_NULL, T_NULL, T_NULL, T_NULL, T_NULL], 1, - 1, - 1) \<and>
   result (do_job cat_f_nosuch 5 False ls_exits) = Some 0 \<and>
   out (final (do_job cat_f_nosuch 5 False ls_exits)) = [] \<and>
   calls (final (do_job cat_f_nosuch 5 False ls_exits)) =
     [Open ''f'' True 4, Close 4, Open ''nosuch'' True (- 1), Sigprocmask_block,
      Fork 100 [Sigprocmask_setmask, Signal_dfl SIGTSTP, Signal_dfl SIGTTIN,
                Signal_dfl SIGTTOU, External_command [T_STR ''cat'']],
      Setpgid 100 100, Tcsetpgrp 3 100, Tcsetpgrp 3 50, Sigprocmask_setmask]"
  by code_simp



section \<open>The kill built-in without the percent sign\<close>

text \<open>
  C6, as the code has it. When the argument \<open>a\<close> of \<^verbatim>\<open>kill\<close> is missing or does not start
  with \<^verbatim>\<open>%\<close>, \<^verbatim>\<open>do_kill\<close> returns \<open>- 1\<close> and does nothing else: nothing is printed, no
  signal is sent, the state is the same. \<open>- 1\<close> is also how \<^verbatim>\<open>builtin_command\<close> says that a
  command is no built-in, so \<^verbatim>\<open>do_job\<close> forks a child that runs the command as an
  external program; a foreground command prints nothing.
\<close>

theorem kill_without_percent:
  assumes "argv0 argv = Some a"
    and "a = None \<or> (\<exists>str. a = Some str \<and> (str = [] \<or> hd str \<noteq> CHR ''%''))"
    and "do_redir token ntokens (- 1) (- 1) s0 = Return (T_STR ''kill'' # argv, n, inp, outp) s"
  shows "do_kill argv s = Return (- 1) s \<and>
         builtin_command (T_STR ''kill'' # argv) s = Return (- 1) s \<and>
         Fork (next_pid s) (do_job_child inp outp (T_STR ''kill'' # argv)) \<in>
           set (calls (final (do_job token ntokens bg s0))) \<and>
         last (do_job_child inp outp (T_STR ''kill'' # argv)) =
           External_command (argv_of (T_STR ''kill'' # argv)) \<and>
         (\<not> bg \<longrightarrow> out (final (do_job token ntokens bg s0)) = out s0)"
proof -
  from assms(1,2) have k: "do_kill argv s = Return (- 1) s"
    by (auto simp: do_kill_def)
  then have b: "builtin_command (T_STR ''kill'' # argv) s = Return (- 1) s"
    by (simp add: builtin_command_def)
  have neg: "(- 1::int) < 0" by simp
  from do_job_launch(1) [OF assms(3) b neg, of bg]
  have "Fork (next_pid s) (do_job_child inp outp (T_STR ''kill'' # argv)) \<in>
          set (calls (final (do_job token ntokens bg s0)))"
    by auto
  moreover have "\<not> bg \<longrightarrow> out (final (do_job token ntokens bg s0)) = out s0"
    using do_job_launch(2) [OF assms(3) b neg] by simp
  moreover have "last (do_job_child inp outp (T_STR ''kill'' # argv)) =
      External_command (argv_of (T_STR ''kill'' # argv))"
    by (simp add: do_job_child_def)
  ultimately show ?thesis using k b by simp
qed

theorem kill_without_percent_witness:
  "do_kill [T_STR ''5'', T_NULL] ls_exits = Return (- 1) ls_exits \<and>
   builtin_command kill_5 ls_exits = Return (- 1) ls_exits \<and>
   Fork (next_pid ls_exits) (do_job_child (- 1) (- 1) kill_5) \<in>
     set (calls (final (do_job kill_5 2 False ls_exits))) \<and>
   last (do_job_child (- 1) (- 1) kill_5) = External_command [T_STR ''kill'', T_STR ''5''] \<and>
   out (final (do_job kill_5 2 False ls_exits)) = out ls_exits"
proof -
  have h1: "argv0 [T_STR ''5'', T_NULL] = Some (Some ''5'')" by simp
  have h2: "Some ''5'' = None \<or>
      (\<exists>str. Some ''5'' = Some str \<and> (str = [] \<or> hd str \<noteq> CHR ''%''))" by simp
  have h3: "do_redir kill_5 2 (- 1) (- 1) ls_exits =
      Return (T_STR ''kill'' # [T_STR ''5'', T_NULL], 2, - 1, - 1) ls_exits"
    unfolding do_redir_def kill_5_def
    by (subst do_redir_loop.simps, simp)+
  from kill_without_percent [OF h1 h2 h3, of False] show ?thesis
    by (simp add: kill_5_def argv_of_def)
qed

text \<open>
  C6 as the claim states it fails: for \<^verbatim>\<open>kill 5\<close> no diagnostic is printed, by \<^verbatim>\<open>do_kill\<close>
  or by \<^verbatim>\<open>do_job\<close>; \<^verbatim>\<open>do_kill\<close> returns \<open>- 1\<close>, but the command is run as the external program
  \<^verbatim>\<open>kill\<close> in a child, and the status of the command is the child's exit code, here 0.
\<close>

theorem kill_without_percent_silent:
  "result (do_kill [T_STR ''5'', T_NULL] ls_exits) = Some (- 1) \<and>
   out (final (do_kill [T_STR ''5'', T_NULL] ls_exits)) = [] \<and>
   result (do_job kill_5 2 False ls_exits) = Some 0 \<and>
   out (final (do_job kill_5 2 False ls_exits)) = [] \<and>
   calls (final (do_job kill_5 2 False ls_exits)) =
     [Sigprocmask_block,
      Fork 100 [Sigprocmask_setmask, Signal_dfl SIGTSTP, Signal_dfl SIGTTIN,
                Signal_dfl SIGTTOU, External_command [T_STR ''kill'', T_STR ''5'']],
      Setpgid 100 100, Tcsetpgrp 3 100, Tcsetpgrp 3 50, Sigprocmask_setmask]"
  by code_simp


lemma do_stage_child_no_launch:
  "list_all (\<lambda>c. \<not> is_launch c) (do_stage_child input output token s)"
proof -
  let ?sc = "s\<lparr>calls :=
                 [Sigprocmask_setmask, Signal_dfl SIGTSTP, Signal_dfl SIGTTIN,
                  Signal_dfl SIGTTOU] @
                 (if input \<noteq> - 1 then [Dup2 input 0] else []) @
                 (if output \<noteq> - 1 then [Dup2 output 1] else []),
               pending := [], future := []\<rparr>"
  have "list_all (\<lambda>c. \<not> is_launch c) (calls ?sc)" by simp
  moreover from grows_builtin_command [of ?sc token] obtain cs where
    "calls (final (builtin_command token ?sc)) = calls ?sc @ cs"
    "list_all (\<lambda>c. \<not> is_launch c) cs"
    by (auto simp: grows_def)
  ultimately have "list_all (\<lambda>c. \<not> is_launch c) (calls (final (builtin_command token ?sc)))"
    by simp
  then show ?thesis
    by (cases "builtin_command token ?sc") (simp_all add: do_stage_child_def)
qed

lemma no_launch_no_Setpgid: "list_all (\<lambda>c. \<not> is_launch c) cs \<Longrightarrow> Setpgid p g \<notin> set cs"
  by (auto simp: list_all_iff)

section \<open>The process group of a child\<close>

text \<open>
  \<open>adds s s' L\<close>: the log has grown from \<open>s\<close> to \<open>s'\<close>, and \<open>L\<close> are the \<^verbatim>\<open>fork\<close> and
  \<^verbatim>\<open>setpgid\<close> calls among the new ones, in their order.
\<close>

definition adds :: "shell \<Rightarrow> shell \<Rightarrow> call list \<Rightarrow> bool" where
  "adds s s' L \<longleftrightarrow> (\<exists>cs. calls s' = calls s @ cs \<and> filter is_launch cs = L)"

lemma adds_refl [simp]: "adds s s []"
  by (simp add: adds_def)

lemma adds_trans: "adds s s1 L1 \<Longrightarrow> adds s1 s2 L2 \<Longrightarrow> adds s s2 (L1 @ L2)"
  by (auto simp: adds_def)

lemma adds_grows: "grows s s' \<Longrightarrow> adds s s' []"
  by (auto simp: adds_def grows_def list_all_iff filter_empty_conv)

lemma adds_same_calls: "calls s' = calls s \<Longrightarrow> adds s s' []"
  by (simp add: adds_def)

text \<open>
  The launches of the stages of one process group \<open>g\<close>: each \<^verbatim>\<open>fork\<close> is followed by the
  parent's \<^verbatim>\<open>setpgid\<close> of the child into \<open>g\<close>, and no child forks or calls \<^verbatim>\<open>setpgid\<close>.
  The launches of a pipeline: the first child is put into the group \<open>g0\<close> that
  \<^verbatim>\<open>do_stage\<close> is given for it, the later ones into the group of the first child's pid.
\<close>

fun stage_launches :: "int \<Rightarrow> call list \<Rightarrow> bool" where
  "stage_launches g [] = True"
| "stage_launches g (Fork p prog # Setpgid q h # L) =
     (q = p \<and> h = g \<and> list_all (\<lambda>c. \<not> is_launch c) prog \<and> stage_launches g L)"
| "stage_launches g L = False"

fun pipeline_launches :: "int \<Rightarrow> call list \<Rightarrow> bool" where
  "pipeline_launches g0 [] = True"
| "pipeline_launches g0 (Fork p prog # Setpgid q h # L) =
     (q = p \<and> h = g0 \<and> list_all (\<lambda>c. \<not> is_launch c) prog \<and> stage_launches p L)"
| "pipeline_launches g0 L = False"

lemma do_stage_adds:
  "(case do_stage pgid' inp outp token ntokens s of
      Halt r s1 \<Rightarrow> adds s s1 []
    | Return x s1 \<Rightarrow>
        (\<exists>prog. adds s s1 [Fork (fst x) prog, Setpgid (fst x) pgid'] \<and>
           list_all (\<lambda>c. \<not> is_launch c) prog))"
proof (cases "do_redir token ntokens inp outp s")
  case (Halt r s1)
  from do_redir_loop_frame [of s token ntokens 0 0 inp outp] Halt
  have "grows s s1" by (simp add: do_redir_def redir_frame_def)
  with Halt show ?thesis by (simp add: do_stage_def bindO_def adds_grows)
next
  case (Return x s1)
  obtain token1 n inp1 outp1 where x: "x = (token1, n, inp1, outp1)" by (cases x)
  from do_redir_loop_frame [of s token ntokens 0 0 inp outp] Return
  have "grows s s1" by (simp add: do_redir_def redir_frame_def)
  then have "adds s s1 []" by (rule adds_grows)
  moreover have "adds s1 (call (Setpgid (next_pid s1) pgid')
      ((call (Fork (next_pid s1) (do_stage_child inp1 outp1 token1 s1)) s1)
         \<lparr>next_pid := next_pid s1 + 1\<rparr>))
      [Fork (next_pid s1) (do_stage_child inp1 outp1 token1 s1), Setpgid (next_pid s1) pgid']"
    by (simp add: adds_def call_def)
  ultimately have "adds s (call (Setpgid (next_pid s1) pgid')
      ((call (Fork (next_pid s1) (do_stage_child inp1 outp1 token1 s1)) s1)
         \<lparr>next_pid := next_pid s1 + 1\<rparr>))
      ([] @ [Fork (next_pid s1) (do_stage_child inp1 outp1 token1 s1), Setpgid (next_pid s1) pgid'])"
    by (rule adds_trans)
  with Return x do_stage_child_no_launch [of inp1 outp1 token1 s1] show ?thesis
    by (auto simp: do_stage_def bindO_def os_fork_def)
qed

lemma do_stage_Halt_adds:
  "do_stage pgid' inp outp token ntokens s = Halt r s1 \<Longrightarrow> adds s s1 []"
  using do_stage_adds [where pgid' = pgid' and inp = inp and outp = outp and token = token
      and ntokens = ntokens and s = s]
  by simp

lemma do_stage_Return_adds:
  "do_stage pgid' inp outp token ntokens s = Return (p, st) s1 \<Longrightarrow>
     \<exists>prog. adds s s1 [Fork p prog, Setpgid p pgid'] \<and> list_all (\<lambda>c. \<not> is_launch c) prog"
  using do_stage_adds [where pgid' = pgid' and inp = inp and outp = outp and token = token
      and ntokens = ntokens and s = s]
  by simp

lemma do_pipeline_loop_adds:
  "\<exists>L. adds s (final (do_pipeline_loop token ntokens bg stage_start pgid' job inp outp nxt s)) L \<and>
       (case job of Some j \<Rightarrow> stage_launches pgid' L | None \<Rightarrow> pipeline_launches pgid' L)"
proof (induction "ntokens - stage_start"
    arbitrary: token stage_start pgid' job inp outp nxt s rule: less_induct)
  case less
  let ?R = "do_pipeline_loop token ntokens bg stage_start pgid' job inp outp nxt s"
  have shape_Nil: "case job of Some j \<Rightarrow> stage_launches pgid' [] | None \<Rightarrow> pipeline_launches pgid' []"
    by (simp split: option.splits)
  show ?case
  proof (cases "ntokens \<le> length token \<and> stage_start < ntokens")
    case False
    then have "final ?R = s" by (subst do_pipeline_loop.simps) auto
    with shape_Nil show ?thesis by (intro exI [of _ "[]"]) simp
  next
    case True
    then have len: "ntokens \<le> length token" and lt: "stage_start < ntokens" by simp_all
    obtain stage_end is_last where
      se: "stage_end_loop token ntokens stage_start = (stage_end, is_last)"
      by (cases "stage_end_loop token ntokens stage_start")
    from stage_end_loop_ge [OF se] lt
    have smaller: "ntokens - (stage_end + 1) < ntokens - stage_start" by simp
    let ?token1 = "if is_last then token else token[stage_end := T_NULL]"
    let ?output1 = "if is_last then - 1 else outp"
    let ?DS = "do_stage pgid' inp ?output1 (drop stage_start ?token1) (stage_end - stage_start) s"
    show ?thesis
    proof (cases ?DS)
      case (Halt r s1)
      with len lt se have "final ?R = s1"
        by (subst do_pipeline_loop.simps) (simp add: bindO_def)
      moreover from do_stage_Halt_adds [OF Halt] have "adds s s1 []" .
      ultimately show ?thesis using shape_Nil by (intro exI [of _ "[]"]) simp
    next
      case (Return x s1)
      obtain p st where x: "x = (p, st)" by (cases x)
      from do_stage_Return_adds [OF Return [unfolded x]]
      obtain prog where
        launch: "adds s s1 [Fork p prog, Setpgid p pgid']" and
        clean: "list_all (\<lambda>c. \<not> is_launch c) prog"
        by auto
      let ?s2 = "if ?output1 \<noteq> - 1 then call (Close ?output1) s1 else s1"
      let ?s3 = "if inp \<noteq> - 1 then call (Close inp) ?s2 else ?s2"
      have "grows s1 ?s3"
        by (auto intro: grows_call grows_trans [OF grows_call grows_call])
      then have closes: "adds s1 ?s3 []" by (rule adds_grows)
      let ?J = "case job of
                  None \<Rightarrow> bindO (addjob p bg ?s3) (\<lambda>j s4. Return (p, j) s4)
                | Some j \<Rightarrow> Return (pgid', j) ?s3"
      let ?L1 = "[Fork p prog, Setpgid p pgid']"
      have shape1: "case job of Some j \<Rightarrow> stage_launches pgid' ?L1
                    | None \<Rightarrow> pipeline_launches pgid' ?L1"
        using clean by (simp split: option.splits)
      have J_adds: "adds ?s3 (final ?J) []"
        using same_io_addjob [of ?s3 p bg]
        by (cases "addjob p bg ?s3")
          (auto simp: bindO_def same_io_def split: option.splits intro!: adds_same_calls)
      show ?thesis
      proof (cases ?J)
        case (Halt r s4)
        with len lt se Return x have "final ?R = s4"
          by (subst do_pipeline_loop.simps) (simp add: bindO_def Let_def)
        moreover from J_adds Halt have "adds ?s3 s4 []" by simp
        with adds_trans [OF adds_trans [OF launch closes]] have "adds s s4 ?L1" by fastforce
        ultimately show ?thesis using shape1 by (intro exI [of _ ?L1]) simp
      next
        case J: (Return y s4)
        obtain pgid1 job1 where y: "y = (pgid1, job1)" by (cases y)
        from J y have pgid1: "pgid1 = (case job of None \<Rightarrow> p | Some j \<Rightarrow> pgid')"
          by (auto simp: bindO_def split: option.splits outcome.splits)
        from J_adds J have "adds ?s3 s4 []" by simp
        with adds_trans [OF adds_trans [OF launch closes]] have to4: "adds s s4 ?L1" by fastforce
        let ?AP = "addproc job1 p st s4"
        have AP_adds: "adds s4 (final ?AP) []"
          using same_io_addproc [of s4 job1 p st] by (simp add: same_io_def adds_same_calls)
        show ?thesis
        proof (cases ?AP)
          case (Halt r s5)
          with len lt se Return x J y have "final ?R = s5"
            by (subst do_pipeline_loop.simps) (simp add: bindO_def Let_def)
          moreover from AP_adds Halt have "adds s4 s5 []" by simp
          with adds_trans [OF to4] have "adds s s5 ?L1" by fastforce
          ultimately show ?thesis using shape1 by (intro exI [of _ ?L1]) simp
        next
          case AP: (Return u s5)
          from AP_adds AP have "adds s4 s5 []" by simp
          with adds_trans [OF to4] have to5: "adds s s5 ?L1" by fastforce
          obtain nxt1 out2 s6 where
            mk: "(if \<not> is_last then mkpipe s5 else ((nxt, ?output1), s5)) = ((nxt1, out2), s6)"
            by (cases "if \<not> is_last then mkpipe s5 else ((nxt, ?output1), s5)") auto
          then have "grows s5 s6"
            by (auto simp: mkpipe_def grows_def call_def split: if_splits)
          then have "adds s5 s6 []" by (rule adds_grows)
          with adds_trans [OF to5] have to6: "adds s s6 ?L1" by fastforce
          let ?Rec = "do_pipeline_loop (take stage_start ?token1 @ st) ntokens bg
                        (stage_end + 1) pgid1 (Some job1) nxt out2 nxt1 s6"
          from len lt se Return x J y AP mk have R: "?R = ?Rec"
            by (subst do_pipeline_loop.simps) (simp add: bindO_def Let_def)
          have "\<exists>L. adds s6 (final ?Rec) L \<and>
                  (case Some job1 of Some j \<Rightarrow> stage_launches pgid1 L
                   | None \<Rightarrow> pipeline_launches pgid1 L)"
            using smaller by (rule less.hyps)
          then obtain L' where rec: "adds s6 (final ?Rec) L'" and rest: "stage_launches pgid1 L'"
            by auto
          from adds_trans [OF to6 rec] R have "adds s (final ?R) (?L1 @ L')" by simp
          moreover have "case job of Some j \<Rightarrow> stage_launches pgid' (?L1 @ L')
                         | None \<Rightarrow> pipeline_launches pgid' (?L1 @ L')"
            using clean rest pgid1 by (simp split: option.splits)
          ultimately show ?thesis by blast
        qed
      qed
    qed
  qed
qed

lemma do_pipeline_adds:
  "\<exists>L. adds s (final (do_pipeline token ntokens bg s)) L \<and> pipeline_launches 0 L"
proof -
  obtain nxt outp s1 where mk: "mkpipe s = ((nxt, outp), s1)"
    by (cases "mkpipe s") auto
  then have "grows s (call Sigprocmask_block s1)"
    by (auto simp: mkpipe_def grows_def call_def)
  then have start: "adds s (call Sigprocmask_block s1) []" by (rule adds_grows)
  let ?loop = "do_pipeline_loop token ntokens bg 0 0 None (- 1) outp nxt (call Sigprocmask_block s1)"
  from do_pipeline_loop_adds [of "call Sigprocmask_block s1" token ntokens bg 0 0 None "- 1" "outp" nxt]
  obtain L where loop: "adds (call Sigprocmask_block s1) (final ?loop) L" and
    shape: "pipeline_launches 0 L"
    by auto
  let ?tail = "\<lambda>(job, next_input1) s2.
      (let s3 = call (Close next_input1) s2
       in if \<not> bg then
            bindO (monitorjob s3) (\<lambda>_ s4. Return (0::int) (call Sigprocmask_setmask s4))
          else
            (case job of
               None \<Rightarrow> Halt Fault s3
             | Some j \<Rightarrow>
                 bindO (jobcmd j s3) (\<lambda>cmd s4.
                   Return 0 (call Sigprocmask_setmask
                     (msg (''['' @ show_int (int j) @ ''] running '' @ [CHR 0x27] @
                           show_str cmd @ [CHR 0x27, CHR 0x0A]) s4)))))"
  have eq: "do_pipeline token ntokens bg s = bindO ?loop ?tail"
    using mk by (simp add: do_pipeline_def Let_def)
  have tail: "grows s2 (final (?tail x s2))" for x s2
    by (cases x)
      (auto simp: Let_def split: option.splits
        intro!: grows_call grows_bindO grows_trans [OF grows_call grows_monitorjob]
          grows_trans [OF grows_call grows_same_io [OF same_io_jobcmd]]
          grows_trans [OF grows_msg grows_call])
  have "adds (final ?loop) (final (bindO ?loop ?tail)) []"
  proof (cases ?loop)
    case (Halt r s2)
    then show ?thesis by (simp add: bindO_def)
  next
    case (Return x s2)
    then have "final (bindO ?loop ?tail) = final (?tail x s2)" and "final ?loop = s2"
      by (simp_all add: bindO_def)
    with adds_grows [OF tail [of s2 x]] show ?thesis by simp
  qed
  from adds_trans [OF adds_trans [OF start loop] this] shape eq show ?thesis
    by auto
qed

text \<open>
  C7, as the code has it. For every child launched, the parent calls
  \<^verbatim>\<open>setpgid(pid, pgid)\<close> right after the \<^verbatim>\<open>fork\<close>: in \<^verbatim>\<open>do_stage\<close> with the \<open>pgid'\<close> it was
  given, in \<^verbatim>\<open>do_job\<close> with the child's own pid. The child calls \<^verbatim>\<open>setpgid\<close> nowhere, neither
  in what \<^verbatim>\<open>do_stage\<close> and \<^verbatim>\<open>do_job\<close> make it run nor in a built-in it runs; and \<^verbatim>\<open>do_job\<close>
  calls \<^verbatim>\<open>setpgid\<close> once. In every run of \<^verbatim>\<open>do_pipeline\<close>, whatever its tokens and however
  it ends, the \<^verbatim>\<open>fork\<close> and \<^verbatim>\<open>setpgid\<close> calls it adds to the log come in pairs, a \<^verbatim>\<open>fork\<close>
  and the parent's \<^verbatim>\<open>setpgid\<close> of that child; the group is 0 for the first child and the
  pid of the first child for every later one, and no child forks or calls \<^verbatim>\<open>setpgid\<close>.
\<close>

theorem setpgid_by_parent_only:
  assumes "do_redir token ntokens input output s = Return (token1, n, inp, outp) s1"
    and "do_redir token' ntokens' (- 1) (- 1) t = Return (token1', n', inp', outp') t1"
    and "builtin_command token1' t1 = Return r t2" and "r < 0"
  shows "(\<exists>s'. do_stage pgid' input output token ntokens s = Return (next_pid s1, token1) s' \<and>
            calls s' = calls s1 @ [Fork (next_pid s1) (do_stage_child inp outp token1 s1),
                                   Setpgid (next_pid s1) pgid']) \<and>
         (\<forall>p g. Setpgid p g \<notin> set (do_stage_child inp outp token1 s1)) \<and>
         (\<exists>cs. calls (final (do_job token' ntokens' bg t)) =
            calls t1 @ [Sigprocmask_block,
                        Fork (next_pid t1) (do_job_child inp' outp' token1'),
                        Setpgid (next_pid t1) (next_pid t1)] @ cs \<and>
            (\<forall>p g. Setpgid p g \<notin> set cs)) \<and>
         (\<forall>p g. Setpgid p g \<notin> set (do_job_child inp' outp' token1')) \<and>
         (\<exists>cs. calls (final (do_pipeline ptoken pn pbg u)) = calls u @ cs \<and>
            pipeline_launches 0 (filter is_launch cs))"
proof -
  have stage: "\<exists>s'. do_stage pgid' input output token ntokens s = Return (next_pid s1, token1) s' \<and>
      calls s' = calls s1 @ [Fork (next_pid s1) (do_stage_child inp outp token1 s1),
                             Setpgid (next_pid s1) pgid']"
    using assms(1) by (simp add: do_stage_def bindO_def os_fork_def call_def)
  have child: "\<forall>p g. Setpgid p g \<notin> set (do_stage_child inp outp token1 s1)"
    using no_launch_no_Setpgid [OF do_stage_child_no_launch] by blast
  from do_job_launch(1) [OF assms(2-4), of bg] obtain cs where
    cs: "calls (final (do_job token' ntokens' bg t)) =
           calls t1 @ [Sigprocmask_block,
                       Fork (next_pid t1) (do_job_child inp' outp' token1'),
                       Setpgid (next_pid t1) (next_pid t1)] @ cs"
      "list_all (\<lambda>c. \<not> is_launch c) cs"
    by blast
  from cs(2) have "\<forall>p g. Setpgid p g \<notin> set cs"
    using no_launch_no_Setpgid by blast
  with cs(1) have job: "\<exists>cs. calls (final (do_job token' ntokens' bg t)) =
            calls t1 @ [Sigprocmask_block,
                        Fork (next_pid t1) (do_job_child inp' outp' token1'),
                        Setpgid (next_pid t1) (next_pid t1)] @ cs \<and>
            (\<forall>p g. Setpgid p g \<notin> set cs)"
    by blast
  have jchild: "\<forall>p g. Setpgid p g \<notin> set (do_job_child inp' outp' token1')"
    by (simp add: do_job_child_def)
  have pipeline: "\<exists>cs. calls (final (do_pipeline ptoken pn pbg u)) = calls u @ cs \<and>
      pipeline_launches 0 (filter is_launch cs)"
    using do_pipeline_adds [of u ptoken pn pbg] by (auto simp: adds_def)
  from stage child job jchild pipeline show ?thesis by blast
qed

text \<open>
  The theorem at the stage and the command \<^verbatim>\<open>ls\<close> and at the pipeline \<^verbatim>\<open>ls | wc\<close>.
\<close>

theorem setpgid_by_parent_only_witness:
  "(\<exists>s'. do_stage 100 4 (- 1) ls_cmd 1 ls_exits = Return (next_pid ls_exits, ls_cmd) s' \<and>
      calls s' = calls ls_exits @ [Fork (next_pid ls_exits) (do_stage_child 4 (- 1) ls_cmd ls_exits),
                                  Setpgid (next_pid ls_exits) 100]) \<and>
   (\<forall>p g. Setpgid p g \<notin> set (do_stage_child 4 (- 1) ls_cmd ls_exits)) \<and>
   (\<exists>cs. calls (final (do_job ls_cmd 1 False ls_exits)) =
      calls ls_exits @ [Sigprocmask_block,
                        Fork (next_pid ls_exits) (do_job_child (- 1) (- 1) ls_cmd),
                        Setpgid (next_pid ls_exits) (next_pid ls_exits)] @ cs \<and>
      (\<forall>p g. Setpgid p g \<notin> set cs)) \<and>
   (\<forall>p g. Setpgid p g \<notin> set (do_job_child (- 1) (- 1) ls_cmd)) \<and>
   (\<exists>cs. calls (final (do_pipeline ls_wc 3 False ls_wc_exit)) = calls ls_wc_exit @ cs \<and>
      pipeline_launches 0 (filter is_launch cs))"
proof -
  have h1: "do_redir ls_cmd 1 inp outp ls_exits = Return (ls_cmd, 1, inp, outp) ls_exits" for inp outp
    unfolding do_redir_def ls_cmd_def
    by (subst do_redir_loop.simps, simp)+
  have h2: "builtin_command ls_cmd ls_exits = Return (- 1) ls_exits"
    by (simp add: builtin_command_def ls_cmd_def)
  have h3: "(- 1::int) < 0" by simp
  from setpgid_by_parent_only [OF h1 h1 h2 h3, of 100 4 "- 1" False ls_wc 3 False ls_wc_exit]
  show ?thesis .
qed

text \<open>
  The \<^verbatim>\<open>fork\<close> and \<^verbatim>\<open>setpgid\<close> calls of \<^verbatim>\<open>ls | wc\<close>: the first child, pid 100, is put into the
  group 0, which makes it the leader of the new group 100, and the second child, pid
  101, into the group 100.
\<close>

lemma do_pipeline_ls_wc_launches:
  "filter is_launch (calls (final (do_pipeline ls_wc 3 False ls_wc_exit))) =
     [Fork 100 [Sigprocmask_setmask, Signal_dfl SIGTSTP, Signal_dfl SIGTTIN,
                Signal_dfl SIGTTOU, Dup2 5 1, External_command [T_STR ''ls'']],
      Setpgid 100 0,
      Fork 101 [Sigprocmask_setmask, Signal_dfl SIGTSTP, Signal_dfl SIGTTIN,
                Signal_dfl SIGTTOU, Dup2 4 0, External_command [T_STR ''wc'']],
      Setpgid 101 100]"
  by code_simp

text \<open>
  C7 as the claim states it fails: the child of \<^verbatim>\<open>ls &\<close> and the child of a first
  pipeline stage \<^verbatim>\<open>ls\<close> run no \<^verbatim>\<open>setpgid\<close>; the only \<^verbatim>\<open>setpgid\<close> is the parent's.
\<close>

theorem child_never_calls_setpgid:
  "calls (final (do_job ls_cmd 1 True shell0)) =
     [Sigprocmask_block,
      Fork 100 [Sigprocmask_setmask, Signal_dfl SIGTSTP, Signal_dfl SIGTTIN,
                Signal_dfl SIGTTOU, External_command [T_STR ''ls'']],
      Setpgid 100 100, Sigprocmask_setmask] \<and>
   calls (final (do_stage 0 (- 1) 5 ls_cmd 1 shell0)) =
     [Fork 100 [Sigprocmask_setmask, Signal_dfl SIGTSTP, Signal_dfl SIGTTIN,
                Signal_dfl SIGTTOU, Dup2 5 1, External_command [T_STR ''ls'']],
      Setpgid 100 0]"
  by code_simp

end
